theory Spec2Isabelle
  imports Main "HOL-Library.Word"
begin

section \<open>Go values used by the drivers\<close>

text \<open>
  Go's \<open>int\<close> is taken at 64 bits (amd64, arm64); a PostgreSQL \<open>bigint\<close> has the same
  width. \<open>time.Duration\<close> is an \<open>int64\<close> count of nanoseconds.
\<close>

type_synonym goint = "64 word"

text \<open>
  Modelled from the spec: \<open>database.NilVersion\<close>, a constant of the host framework's
  \<open>database\<close> package, which is not among the sources. The spec gives \<open>-1\<close> as the
  sentinel that stands for no version.
\<close>

definition NilVersion :: goint where
  "NilVersion = - 1"

definition Millisecond :: goint where
  "Millisecond = 1000000"

subsection \<open>Statements sent to PostgreSQL\<close>

text \<open>
  The SQL texts the relational driver builds, one constructor per text; the argument is the
  identifier that \<open>pq.QuoteIdentifier\<close> quotes, or the bound parameters.
\<close>

datatype query =
    SelectCurrentDatabase
  | SelectCurrentSchema
  | PgAdvisoryLock string
  | PgAdvisoryUnlock string
  | Truncate string
  | InsertVersion string goint bool
  | SelectVersionLimit1 string
  | SelectBaseTables
  | DropTableIfExistsCascade string
  | CreateTableIfNotExists string

datatype sqlval = VString string | VInt goint | VBool bool

subsection \<open>Errors\<close>

datatype error =
    ErrNilConfig
  | ErrNoDatabaseName
  | ErrNoSchema
  | ErrDatabaseDirty
  | ErrLocked
  | ErrNoRows
  | PqError string
  | DriverError string
  | ErrSyntax string
  | ErrRange string
  | AwsError string
  | ErrorString string
  | Errorf string error
  | DatabaseError error string "query option"
  | MultiError "error list"

text \<open>
  \<open>ErrLocked\<close> is \<open>database.ErrLocked\<close> (of the host framework's \<open>database\<close> package,
  as are \<open>database.Error\<close> and the lock key function below), \<open>ErrNoRows\<close> is \<open>sql.ErrNoRows\<close>,
  \<open>PqError name\<close> is a \<open>*pq.Error\<close> whose \<open>Code.Name()\<close> is \<open>name\<close>,
  \<open>DriverError\<close> any other error of \<open>database/sql\<close> or of the connection,
  \<open>ErrSyntax\<close> and \<open>ErrRange\<close> the two \<open>strconv.NumError\<close>s (with the offending text),
  \<open>AwsError code\<close> an error of the DynamoDB client,
  \<open>DatabaseError orig msg q\<close> is \<open>&database.Error{OrigErr: orig, Err: msg, Query: q}\<close>.
\<close>

fun multierror_Append :: "error option \<Rightarrow> error \<Rightarrow> error" where
  "multierror_Append None e = MultiError [e]"
| "multierror_Append (Some (MultiError es)) e = MultiError (es @ [e])"
| "multierror_Append (Some err) e = MultiError [err, e]"

subsection \<open>strconv.Itoa and strconv.Atoi\<close>

function formatBits :: "nat \<Rightarrow> string" where
  "formatBits u =
     (if u < 10 then [char_of (48 + u)]
      else formatBits (u div 10) @ [char_of (48 + u mod 10)])"
  by pat_completeness auto
termination
  by (relation "measure id") auto

declare formatBits.simps [simp del]

definition Itoa :: "goint \<Rightarrow> string" where
  "Itoa i =
     (if sint i < 0 then CHR ''-'' # formatBits (nat (- sint i))
      else formatBits (nat (sint i)))"

definition is_digit :: "char \<Rightarrow> bool" where
  "is_digit c \<longleftrightarrow> (48::nat) \<le> of_char c \<and> of_char c \<le> (57::nat)"

definition digits_value :: "string \<Rightarrow> nat" where
  "digits_value ds = foldl (\<lambda>n c. n * 10 + (of_char c - 48)) 0 ds"

definition strip_sign :: "string \<Rightarrow> bool \<times> string" where
  "strip_sign s =
     (case s of
        [] \<Rightarrow> (False, [])
      | c # r \<Rightarrow>
          if c = CHR ''-'' then (True, r)
          else if c = CHR ''+'' then (False, r)
          else (False, s))"

text \<open>
  \<open>strconv.Atoi\<close>: an optional sign, then one or more decimal digits; a syntax error gives 0
  and a value outside \<open>int\<close> gives the nearest bound, each with its error.
\<close>

definition Atoi :: "string \<Rightarrow> goint \<times> error option" where
  "Atoi s =
     (case strip_sign s of
        (neg, ds) \<Rightarrow>
          if ds = [] \<or> \<not> list_all is_digit ds then (0, Some (ErrSyntax s))
          else
            let n = digits_value ds in
            if \<not> neg \<and> n \<ge> 2 ^ 63 then (2 ^ 63 - 1, Some (ErrRange s))
            else if neg \<and> n > 2 ^ 63 then (- (2 ^ 63), Some (ErrRange s))
            else (if neg then - of_nat n else of_nat n, None))"

section \<open>The PostgreSQL backend of shell.go\<close>

text \<open>
  What the relational driver talks to. \<open>tables\<close> are the base tables of the current schema
  in catalogue order, each with its \<open>(version, dirty)\<close> rows; \<open>advisory\<close> maps an advisory
  lock key to the session holding it and how many times; \<open>next_conn\<close> numbers the next
  session. \<open>faults\<close> is the list of failures still to come: each call to the backend takes
  the head, and \<open>Some e\<close> makes that call fail with \<open>e\<close> and without effect. \<open>sent\<close> records
  every call made, with the \<open>context.Context\<close> it was given; a call that takes no context
  (\<open>tx.Exec\<close>, \<open>tx.Commit\<close>, \<open>db.Ping\<close>) is recorded with the background context, which
  is what \<open>database/sql\<close> runs it with.
\<close>

datatype ctx = Background | WithTimeout goint

datatype request =
    Ping
  | SqlOpen string
  | DbConn
  | Begin
  | Stmt query
  | Commit
  | Rollback
  | RowsClose

type_synonym row = "goint \<times> bool"

record world =
  tables :: "(string \<times> row list) list"
  advisory :: "string \<rightharpoonup> nat \<times> nat"
  current_database :: string
  current_schema :: string
  next_conn :: nat
  faults :: "error option list"
  sent :: "(ctx \<times> request) list"

definition call :: "ctx \<Rightarrow> request \<Rightarrow> world \<Rightarrow> error option \<times> world" where
  "call c r w =
     (case faults w of
        [] \<Rightarrow> (None, w\<lparr>sent := sent w @ [(c, r)]\<rparr>)
      | f # fs \<Rightarrow> (f, w\<lparr>faults := fs, sent := sent w @ [(c, r)]\<rparr>))"

subsection \<open>What the server does with a statement\<close>

definition create_table :: "string \<Rightarrow> (string \<times> row list) list \<Rightarrow> (string \<times> row list) list" where
  "create_table t ts = (case map_of ts t of None \<Rightarrow> ts @ [(t, [])] | Some _ \<Rightarrow> ts)"

definition set_rows :: "string \<Rightarrow> row list \<Rightarrow> (string \<times> row list) list \<Rightarrow> (string \<times> row list) list" where
  "set_rows t rs ts = map (\<lambda>(n, old). if n = t then (n, rs) else (n, old)) ts"

definition drop_table :: "string \<Rightarrow> (string \<times> row list) list \<Rightarrow> (string \<times> row list) list" where
  "drop_table t ts = filter (\<lambda>(n, _). n \<noteq> t) ts"

text \<open>
  \<open>pg_exec c q w\<close>: session \<open>c\<close> runs \<open>q\<close>. \<open>None\<close> means the server does not answer:
  \<open>pg_advisory_lock\<close> waits while another session holds the key. A session may take a key
  it holds again (the count goes up), and \<open>pg_advisory_unlock\<close> of a key the session does
  not hold returns false without an error.
\<close>

fun pg_exec :: "nat \<Rightarrow> query \<Rightarrow> world \<Rightarrow> ((error + sqlval list list) \<times> world) option" where
  "pg_exec c SelectCurrentDatabase w = Some (Inr [[VString (current_database w)]], w)"
| "pg_exec c SelectCurrentSchema w = Some (Inr [[VString (current_schema w)]], w)"
| "pg_exec c (PgAdvisoryLock k) w =
     (case advisory w k of
        None \<Rightarrow> Some (Inr [[]], w\<lparr>advisory := (advisory w)(k \<mapsto> (c, 1))\<rparr>)
      | Some (c', n) \<Rightarrow>
          if c' = c then Some (Inr [[]], w\<lparr>advisory := (advisory w)(k \<mapsto> (c, Suc n))\<rparr>)
          else None)"
| "pg_exec c (PgAdvisoryUnlock k) w =
     (case advisory w k of
        None \<Rightarrow> Some (Inr [[VBool False]], w)
      | Some (c', n) \<Rightarrow>
          if c' \<noteq> c then Some (Inr [[VBool False]], w)
          else if n \<le> 1 then Some (Inr [[VBool True]], w\<lparr>advisory := (advisory w)(k := None)\<rparr>)
          else Some (Inr [[VBool True]], w\<lparr>advisory := (advisory w)(k \<mapsto> (c, n - 1))\<rparr>))"
| "pg_exec c (Truncate t) w =
     (case map_of (tables w) t of
        None \<Rightarrow> Some (Inl (PqError ''undefined_table''), w)
      | Some _ \<Rightarrow> Some (Inr [], w\<lparr>tables := set_rows t [] (tables w)\<rparr>))"
| "pg_exec c (InsertVersion t v d) w =
     (case map_of (tables w) t of
        None \<Rightarrow> Some (Inl (PqError ''undefined_table''), w)
      | Some rs \<Rightarrow>
          if v \<in> set (map fst rs) then Some (Inl (PqError ''unique_violation''), w)
          else Some (Inr [], w\<lparr>tables := set_rows t (rs @ [(v, d)]) (tables w)\<rparr>))"
| "pg_exec c (SelectVersionLimit1 t) w =
     (case map_of (tables w) t of
        None \<Rightarrow> Some (Inl (PqError ''undefined_table''), w)
      | Some rs \<Rightarrow> Some (Inr (map (\<lambda>(v, d). [VInt v, VBool d]) (take 1 rs)), w))"
| "pg_exec c SelectBaseTables w = Some (Inr (map (\<lambda>(n, _). [VString n]) (tables w)), w)"
| "pg_exec c (DropTableIfExistsCascade t) w =
     Some (Inr [], w\<lparr>tables := drop_table t (tables w)\<rparr>)"
| "pg_exec c (CreateTableIfNotExists t) w =
     Some (Inr [], w\<lparr>tables := create_table t (tables w)\<rparr>)"

subsection \<open>database/sql: connections, statements, transactions\<close>

definition db_Ping :: "world \<Rightarrow> error option \<times> world" where
  "db_Ping w = call Background Ping w"

definition sql_Open :: "string \<Rightarrow> world \<Rightarrow> error option \<times> world" where
  "sql_Open dsn w = call Background (SqlOpen dsn) w"

definition db_Conn :: "ctx \<Rightarrow> world \<Rightarrow> (error + nat) \<times> world" where
  "db_Conn c w =
     (case call c DbConn w of
        (Some err, w1) \<Rightarrow> (Inl err, w1)
      | (None, w1) \<Rightarrow> (Inr (next_conn w1), w1\<lparr>next_conn := Suc (next_conn w1)\<rparr>))"

definition conn_ExecContext ::
  "nat \<Rightarrow> ctx \<Rightarrow> query \<Rightarrow> world \<Rightarrow> ((error + sqlval list list) \<times> world) option" where
  "conn_ExecContext c cx q w =
     (case call cx (Stmt q) w of
        (Some err, w1) \<Rightarrow> Some (Inl err, w1)
      | (None, w1) \<Rightarrow> pg_exec c q w1)"

definition conn_QueryContext ::
  "nat \<Rightarrow> ctx \<Rightarrow> query \<Rightarrow> world \<Rightarrow> ((error + sqlval list list) \<times> world) option" where
  "conn_QueryContext c cx q w = conn_ExecContext c cx q w"

text \<open>\<open>QueryRowContext(...).Scan\<close> reads the first row, \<open>sql.ErrNoRows\<close> when there is none.\<close>

definition conn_QueryRowContext ::
  "nat \<Rightarrow> ctx \<Rightarrow> query \<Rightarrow> world \<Rightarrow> ((error + sqlval list) \<times> world) option" where
  "conn_QueryRowContext c cx q w =
     (case conn_QueryContext c cx q w of
        None \<Rightarrow> None
      | Some (Inl err, w1) \<Rightarrow> Some (Inl err, w1)
      | Some (Inr [], w1) \<Rightarrow> Some (Inl ErrNoRows, w1)
      | Some (Inr (r # _), w1) \<Rightarrow> Some (Inr r, w1))"

definition Scan_string :: "sqlval list \<Rightarrow> error + string" where
  "Scan_string r = (case r of [VString s] \<Rightarrow> Inr s | _ \<Rightarrow> Inl (DriverError ''sql: Scan error''))"

definition Scan_int_bool :: "sqlval list \<Rightarrow> error + goint \<times> bool" where
  "Scan_int_bool r =
     (case r of [VInt v, VBool d] \<Rightarrow> Inr (v, d) | _ \<Rightarrow> Inl (DriverError ''sql: Scan error''))"

text \<open>
  A transaction works on its own copy of the tables: statements run through \<open>tx_Exec\<close> read
  and change the copy, \<open>tx_Commit\<close> makes the copy the tables of the server, and
  \<open>tx_Rollback\<close> drops it. Advisory locks belong to the session, not to the transaction.
\<close>

record Tx =
  tx_conn :: nat
  tx_tables :: "(string \<times> row list) list"

definition conn_BeginTx :: "nat \<Rightarrow> ctx \<Rightarrow> world \<Rightarrow> (error + Tx) \<times> world" where
  "conn_BeginTx c cx w =
     (case call cx Begin w of
        (Some err, w1) \<Rightarrow> (Inl err, w1)
      | (None, w1) \<Rightarrow> (Inr \<lparr>tx_conn = c, tx_tables = tables w1\<rparr>, w1))"

definition tx_Exec ::
  "Tx \<Rightarrow> query \<Rightarrow> world \<Rightarrow> ((error + sqlval list list) \<times> Tx \<times> world) option" where
  "tx_Exec tx q w =
     (case call Background (Stmt q) w of
        (Some err, w1) \<Rightarrow> Some (Inl err, tx, w1)
      | (None, w1) \<Rightarrow>
          (case pg_exec (tx_conn tx) q (w1\<lparr>tables := tx_tables tx\<rparr>) of
             None \<Rightarrow> None
           | Some (r, w2) \<Rightarrow>
               Some (r, tx\<lparr>tx_tables := tables w2\<rparr>, w2\<lparr>tables := tables w1\<rparr>)))"

definition tx_Rollback :: "Tx \<Rightarrow> world \<Rightarrow> error option \<times> world" where
  "tx_Rollback tx w = call Background Rollback w"

definition tx_Commit :: "Tx \<Rightarrow> world \<Rightarrow> error option \<times> world" where
  "tx_Commit tx w =
     (case call Background Commit w of
        (Some err, w1) \<Rightarrow> (Some err, w1)
      | (None, w1) \<Rightarrow> (None, w1\<lparr>tables := tx_tables tx\<rparr>))"

definition rows_Close :: "world \<Rightarrow> error option \<times> world" where
  "rows_Close w = call Background RowsClose w"

section \<open>shell.go: the relational driver\<close>

definition DefaultMigrationsTable :: string where
  "DefaultMigrationsTable = ''schema_migrations''"

record Config =
  MigrationsTable :: string
  DatabaseName :: string
  SchemaName :: string
  StatementTimeout :: goint

text \<open>
  The \<open>Shell\<close> struct: \<open>conn\<close> is the session of its \<open>*sql.Conn\<close>; its \<open>*sql.DB\<close> is the
  pool the session came from and carries no state of its own here.
\<close>

record Shell =
  conn :: nat
  isLocked :: bool
  config :: Config

text \<open>
  \<open>database.GenerateAdvisoryLockId\<close> belongs to the host framework's \<open>database\<close> package,
  which is not part of these sources: the functions that call it take it as the parameter
  \<open>gen\<close>, from the database name and the schema name to an error or the lock key.
\<close>

type_synonym lockid = "string \<Rightarrow> string \<Rightarrow> error + string"

definition Lock :: "lockid \<Rightarrow> Shell \<Rightarrow> world \<Rightarrow> (error option \<times> Shell \<times> world) option" where
  "Lock gen p w =
     (if isLocked p then Some (Some ErrLocked, p, w)
      else
        case gen (DatabaseName (config p)) (SchemaName (config p)) of
          Inl err \<Rightarrow> Some (Some err, p, w)
        | Inr aid \<Rightarrow>
            (case conn_ExecContext (conn p) Background (PgAdvisoryLock aid) w of
               None \<Rightarrow> None
             | Some (Inl err, w1) \<Rightarrow>
                 Some (Some (DatabaseError err ''try lock failed'' (Some (PgAdvisoryLock aid))),
                       p, w1)
             | Some (Inr _, w1) \<Rightarrow> Some (None, p\<lparr>isLocked := True\<rparr>, w1)))"

definition Unlock :: "lockid \<Rightarrow> Shell \<Rightarrow> world \<Rightarrow> (error option \<times> Shell \<times> world) option" where
  "Unlock gen p w =
     (if \<not> isLocked p then Some (None, p, w)
      else
        case gen (DatabaseName (config p)) (SchemaName (config p)) of
          Inl err \<Rightarrow> Some (Some err, p, w)
        | Inr aid \<Rightarrow>
            (case conn_ExecContext (conn p) Background (PgAdvisoryUnlock aid) w of
               None \<Rightarrow> None
             | Some (Inl err, w1) \<Rightarrow>
                 Some (Some (DatabaseError err [] (Some (PgAdvisoryUnlock aid))), p, w1)
             | Some (Inr _, w1) \<Rightarrow> Some (None, p\<lparr>isLocked := False\<rparr>, w1)))"

text \<open>
  \<open>rollback_with err tx w\<close> is the error path shared by the two statements of
  \<open>SetVersion\<close>: roll back, and append the rollback's own error if it has one.
\<close>

definition rollback_with :: "error \<Rightarrow> Tx \<Rightarrow> world \<Rightarrow> error \<times> world" where
  "rollback_with err tx w =
     (case tx_Rollback tx w of
        (Some errRollback, w1) \<Rightarrow> (multierror_Append (Some err) errRollback, w1)
      | (None, w1) \<Rightarrow> (err, w1))"

definition SetVersion :: "Shell \<Rightarrow> goint \<Rightarrow> bool \<Rightarrow> world \<Rightarrow> (error option \<times> world) option" where
  "SetVersion p version dirty w =
     (case conn_BeginTx (conn p) Background w of
        (Inl err, w1) \<Rightarrow> Some (Some (DatabaseError err ''transaction start failed'' None), w1)
      | (Inr tx, w1) \<Rightarrow>
          (case tx_Exec tx (Truncate (MigrationsTable (config p))) w1 of
             None \<Rightarrow> None
           | Some (Inl err, tx1, w2) \<Rightarrow>
               (case rollback_with err tx1 w2 of
                  (err', w3) \<Rightarrow>
                    Some (Some (DatabaseError err' []
                                  (Some (Truncate (MigrationsTable (config p))))), w3))
           | Some (Inr _, tx1, w2) \<Rightarrow>
               (if 0 \<le> sint version \<or> (version = NilVersion \<and> dirty) then
                  (case tx_Exec tx1 (InsertVersion (MigrationsTable (config p)) version dirty) w2 of
                     None \<Rightarrow> None
                   | Some (Inl err, tx2, w3) \<Rightarrow>
                       (case rollback_with err tx2 w3 of
                          (err', w4) \<Rightarrow>
                            Some (Some (DatabaseError err' []
                                          (Some (InsertVersion (MigrationsTable (config p))
                                                   version dirty))), w4))
                   | Some (Inr _, tx2, w3) \<Rightarrow>
                       (case tx_Commit tx2 w3 of
                          (Some err, w4) \<Rightarrow>
                            Some (Some (DatabaseError err ''transaction commit failed'' None), w4)
                        | (None, w4) \<Rightarrow> Some (None, w4)))
                else
                  (case tx_Commit tx1 w2 of
                     (Some err, w3) \<Rightarrow>
                       Some (Some (DatabaseError err ''transaction commit failed'' None), w3)
                   | (None, w3) \<Rightarrow> Some (None, w3)))))"

text \<open>\<open>Version\<close> returns \<open>(version, dirty, err)\<close>.\<close>

definition Version :: "Shell \<Rightarrow> world \<Rightarrow> ((goint \<times> bool \<times> error option) \<times> world) option" where
  "Version p w =
     (case conn_QueryRowContext (conn p) Background
             (SelectVersionLimit1 (MigrationsTable (config p))) w of
        None \<Rightarrow> None
      | Some (r, w1) \<Rightarrow>
          (case (case r of Inl err \<Rightarrow> Inl err | Inr vals \<Rightarrow> Scan_int_bool vals) of
             Inl ErrNoRows \<Rightarrow> Some ((NilVersion, False, None), w1)
           | Inl (PqError name) \<Rightarrow>
               if name = ''undefined_table'' then Some ((NilVersion, False, None), w1)
               else Some ((0, False,
                           Some (DatabaseError (PqError name) []
                                   (Some (SelectVersionLimit1 (MigrationsTable (config p)))))), w1)
           | Inl err \<Rightarrow>
               Some ((0, False,
                      Some (DatabaseError err []
                              (Some (SelectVersionLimit1 (MigrationsTable (config p)))))), w1)
           | Inr (version, dirty) \<Rightarrow> Some ((version, dirty, None), w1)))"

text \<open>The \<open>for tables.Next()\<close> loop of \<open>Drop\<close>: scan each row, keep the non-empty names.\<close>

fun scan_tableNames :: "sqlval list list \<Rightarrow> string list \<Rightarrow> error + string list" where
  "scan_tableNames [] tableNames = Inr tableNames"
| "scan_tableNames (r # rs) tableNames =
     (case Scan_string r of
        Inl err \<Rightarrow> Inl err
      | Inr tableName \<Rightarrow>
          scan_tableNames rs
            (if length tableName > 0 then tableNames @ [tableName] else tableNames))"

text \<open>The \<open>for _, t := range tableNames\<close> loop of \<open>Drop\<close>: stop at the first failure.\<close>

fun drop_each :: "nat \<Rightarrow> string list \<Rightarrow> world \<Rightarrow> (error option \<times> world) option" where
  "drop_each c [] w = Some (None, w)"
| "drop_each c (t # ts) w =
     (case conn_ExecContext c Background (DropTableIfExistsCascade t) w of
        None \<Rightarrow> None
      | Some (Inl err, w1) \<Rightarrow>
          Some (Some (DatabaseError err [] (Some (DropTableIfExistsCascade t))), w1)
      | Some (Inr _, w1) \<Rightarrow> drop_each c ts w1)"

text \<open>The deferred \<open>tables.Close()\<close> of \<open>Drop\<close>, which appends its error to the result.\<close>

definition close_rows :: "error option \<Rightarrow> world \<Rightarrow> error option \<times> world" where
  "close_rows err w =
     (case rows_Close w of
        (Some errClose, w1) \<Rightarrow> (Some (multierror_Append err errClose), w1)
      | (None, w1) \<Rightarrow> (err, w1))"

definition Drop :: "Shell \<Rightarrow> world \<Rightarrow> (error option \<times> world) option" where
  "Drop p w =
     (case conn_QueryContext (conn p) Background SelectBaseTables w of
        None \<Rightarrow> None
      | Some (Inl err, w1) \<Rightarrow> Some (Some (DatabaseError err [] (Some SelectBaseTables)), w1)
      | Some (Inr rows, w1) \<Rightarrow>
          (case scan_tableNames rows [] of
             Inl err \<Rightarrow> Some (close_rows (Some err) w1)
           | Inr tableNames \<Rightarrow>
               (case drop_each (conn p) tableNames w1 of
                  None \<Rightarrow> None
                | Some (err, w2) \<Rightarrow> Some (close_rows err w2))))"

text \<open>
  \<open>ensureVersionTable\<close> locks, creates the table if it is not there, and unlocks in a
  deferred call whose error is returned, alone or appended to the one of the body.
\<close>

definition ensureVersionTable ::
  "lockid \<Rightarrow> Shell \<Rightarrow> world \<Rightarrow> (error option \<times> Shell \<times> world) option" where
  "ensureVersionTable gen p w =
     (case Lock gen p w of
        None \<Rightarrow> None
      | Some (Some err, p1, w1) \<Rightarrow> Some (Some err, p1, w1)
      | Some (None, p1, w1) \<Rightarrow>
          (case conn_ExecContext (conn p1) Background
                  (CreateTableIfNotExists (MigrationsTable (config p1))) w1 of
             None \<Rightarrow> None
           | Some (r, w2) \<Rightarrow>
               (let err = (case r of
                             Inl e \<Rightarrow> Some (DatabaseError e []
                                              (Some (CreateTableIfNotExists
                                                       (MigrationsTable (config p1)))))
                           | Inr _ \<Rightarrow> None)
                in case Unlock gen p1 w2 of
                     None \<Rightarrow> None
                   | Some (None, p2, w3) \<Rightarrow> Some (err, p2, w3)
                   | Some (Some e, p2, w3) \<Rightarrow>
                       Some (Some (case err of None \<Rightarrow> e
                                   | Some _ \<Rightarrow> multierror_Append err e), p2, w3))))"

text \<open>
  \<open>instance.QueryRow(query).Scan(&name)\<close> of \<open>WithInstance\<close>. It runs on some connection
  of the pool; the two statements sent this way do not depend on the session, written 0.
\<close>

definition db_QueryRow_string :: "query \<Rightarrow> world \<Rightarrow> ((error + string) \<times> world) option" where
  "db_QueryRow_string q w =
     (case conn_QueryRowContext 0 Background q w of
        None \<Rightarrow> None
      | Some (Inl err, w1) \<Rightarrow> Some (Inl err, w1)
      | Some (Inr r, w1) \<Rightarrow> Some (Scan_string r, w1))"

definition WithInstance ::
  "lockid \<Rightarrow> Config option \<Rightarrow> world \<Rightarrow> ((error + Shell) \<times> world) option" where
  "WithInstance gen cfg w =
     (case cfg of
        None \<Rightarrow> Some (Inl ErrNilConfig, w)
      | Some config0 \<Rightarrow>
          (case db_Ping w of
             (Some err, w1) \<Rightarrow> Some (Inl err, w1)
           | (None, w1) \<Rightarrow>
               (case (if DatabaseName config0 = [] then
                        (case db_QueryRow_string SelectCurrentDatabase w1 of
                           None \<Rightarrow> None
                         | Some (Inl err, w2) \<Rightarrow>
                             Some (Inl (DatabaseError err [] (Some SelectCurrentDatabase)), w2)
                         | Some (Inr databaseName, w2) \<Rightarrow>
                             if length databaseName = 0 then Some (Inl ErrNoDatabaseName, w2)
                             else Some (Inr (config0\<lparr>DatabaseName := databaseName\<rparr>), w2))
                      else Some (Inr config0, w1)) of
                  None \<Rightarrow> None
                | Some (Inl err, w2) \<Rightarrow> Some (Inl err, w2)
                | Some (Inr config1, w2) \<Rightarrow>
                    (case (if SchemaName config1 = [] then
                             (case db_QueryRow_string SelectCurrentSchema w2 of
                                None \<Rightarrow> None
                              | Some (Inl err, w3) \<Rightarrow>
                                  Some (Inl (DatabaseError err [] (Some SelectCurrentSchema)), w3)
                              | Some (Inr schemaName, w3) \<Rightarrow>
                                  if length schemaName = 0 then Some (Inl ErrNoSchema, w3)
                                  else Some (Inr (config1\<lparr>SchemaName := schemaName\<rparr>), w3))
                           else Some (Inr config1, w2)) of
                       None \<Rightarrow> None
                     | Some (Inl err, w3) \<Rightarrow> Some (Inl err, w3)
                     | Some (Inr config2, w3) \<Rightarrow>
                         (let config3 =
                                (if length (MigrationsTable config2) = 0
                                 then config2\<lparr>MigrationsTable := DefaultMigrationsTable\<rparr>
                                 else config2)
                          in case db_Conn Background w3 of
                               (Inl err, w4) \<Rightarrow> Some (Inl err, w4)
                             | (Inr cn, w4) \<Rightarrow>
                                 (case ensureVersionTable gen
                                         \<lparr>conn = cn, isLocked = False, config = config3\<rparr> w4 of
                                    None \<Rightarrow> None
                                  | Some (Some err, px, w5) \<Rightarrow> Some (Inl err, w5)
                                  | Some (None, px, w5) \<Rightarrow> Some (Inr px, w5)))))))"

text \<open>
  \<open>net/url\<close> is taken as the parameter \<open>nurl_Parse\<close>: from the text to an error or the
  parsed URL, with its path and the values of its query string.
\<close>

record URL =
  Path :: string
  Query :: "(string \<times> string list) list"

definition Get :: "(string \<times> string list) list \<Rightarrow> string \<Rightarrow> string" where
  "Get vs key = (case map_of vs key of None \<Rightarrow> [] | Some [] \<Rightarrow> [] | Some (v # _) \<Rightarrow> v)"

definition Open ::
  "(string \<Rightarrow> error + URL) \<Rightarrow> lockid \<Rightarrow> string \<Rightarrow> world \<Rightarrow> ((error + Shell) \<times> world) option" where
  "Open nurl_Parse gen url w =
     (case nurl_Parse url of
        Inl err \<Rightarrow> Some (Inl err, w)
      | Inr purl \<Rightarrow>
          (let postgresDsn = Get (Query purl) ''x-postgres-dsn'' in
           case sql_Open postgresDsn w of
             (Some err, w1) \<Rightarrow> Some (Inl err, w1)
           | (None, w1) \<Rightarrow>
               (let migrationsTable = Get (Query purl) ''x-migrations-table'';
                    statementTimeoutString = Get (Query purl) ''x-statement-timeout''
                in case (if statementTimeoutString \<noteq> [] then Atoi statementTimeoutString
                         else (0, None)) of
                     (_, Some err) \<Rightarrow> Some (Inl err, w1)
                   | (statementTimeout, None) \<Rightarrow>
                       WithInstance gen
                         (Some \<lparr>MigrationsTable = migrationsTable,
                                DatabaseName = Path purl,
                                SchemaName = [],
                                StatementTimeout = statementTimeout * Millisecond\<rparr>) w1)))"

section \<open>The key-value driver (DynamoDB)\<close>

text \<open>
  A \<open>dynamodb.AttributeValue\<close> is a struct of optional fields; the driver uses three.
  An item maps attribute names to values. A table of the service holds its items under the
  string of their hash key, the attribute \<open>ID\<close>. \<open>ddb_faults\<close> plays the part \<open>faults\<close>
  plays for PostgreSQL.
\<close>

record AttributeValue =
  attr_S :: "string option"
  attr_N :: "string option"
  attr_BOOL :: "bool option"

type_synonym item = "(string \<times> AttributeValue) list"

record dynamo =
  ddb_tables :: "(string \<times> (string \<times> item) list) list"
  ddb_faults :: "error option list"

definition ddb_call :: "dynamo \<Rightarrow> error option \<times> dynamo" where
  "ddb_call d =
     (case ddb_faults d of
        [] \<Rightarrow> (None, d)
      | f # fs \<Rightarrow> (f, d\<lparr>ddb_faults := fs\<rparr>))"

definition key_of :: "item \<Rightarrow> string option" where
  "key_of it = (case map_of it ''ID'' of None \<Rightarrow> None | Some a \<Rightarrow> attr_S a)"

definition put_item :: "string \<Rightarrow> item \<Rightarrow> (string \<times> item) list \<Rightarrow> (string \<times> item) list" where
  "put_item k it items = (k, it) # filter (\<lambda>(k', _). k' \<noteq> k) items"

definition PutItem :: "string \<Rightarrow> item \<Rightarrow> dynamo \<Rightarrow> error option \<times> dynamo" where
  "PutItem tableName it d =
     (case ddb_call d of
        (Some err, d1) \<Rightarrow> (Some err, d1)
      | (None, d1) \<Rightarrow>
          (case map_of (ddb_tables d1) tableName of
             None \<Rightarrow> (Some (AwsError ''ResourceNotFoundException''), d1)
           | Some items \<Rightarrow>
               (case key_of it of
                  None \<Rightarrow> (Some (AwsError ''ValidationException''), d1)
                | Some k \<Rightarrow>
                    (None, d1\<lparr>ddb_tables :=
                                 map (\<lambda>(n, old). if n = tableName then (n, put_item k it old)
                                                  else (n, old)) (ddb_tables d1)\<rparr>))))"

text \<open>\<open>GetItem\<close> answers with the item, or with no attributes when the key is not there.\<close>

definition GetItem :: "string \<Rightarrow> item \<Rightarrow> dynamo \<Rightarrow> (error + item) \<times> dynamo" where
  "GetItem tableName key d =
     (case ddb_call d of
        (Some err, d1) \<Rightarrow> (Inl err, d1)
      | (None, d1) \<Rightarrow>
          (case map_of (ddb_tables d1) tableName of
             None \<Rightarrow> (Inl (AwsError ''ResourceNotFoundException''), d1)
           | Some items \<Rightarrow>
               (case key_of key of
                  None \<Rightarrow> (Inl (AwsError ''ValidationException''), d1)
                | Some k \<Rightarrow>
                    (Inr (case map_of items k of None \<Rightarrow> [] | Some it \<Rightarrow> it), d1))))"

definition session_NewSession :: "dynamo \<Rightarrow> error option \<times> dynamo" where
  "session_NewSession d = ddb_call d"

record DynConfig =
  dyn_MigrationsTable :: string
  dyn_Timeout :: goint
  dyn_Verbose :: bool

record DynShell =
  dyn_config :: DynConfig

definition aws_String :: "string \<Rightarrow> AttributeValue" where
  "aws_String s = \<lparr>attr_S = Some s, attr_N = None, attr_BOOL = None\<rparr>"

definition aws_Number :: "string \<Rightarrow> AttributeValue" where
  "aws_Number n = \<lparr>attr_S = None, attr_N = Some n, attr_BOOL = None\<rparr>"

definition aws_Bool :: "bool \<Rightarrow> AttributeValue" where
  "aws_Bool b = \<lparr>attr_S = None, attr_N = None, attr_BOOL = Some b\<rparr>"

definition dyn_SetVersion :: "DynShell \<Rightarrow> goint \<Rightarrow> bool \<Rightarrow> dynamo \<Rightarrow> error option \<times> dynamo" where
  "dyn_SetVersion s version dirty d =
     PutItem (dyn_MigrationsTable (dyn_config s))
       [(''ID'', aws_String ''LatestMigrationVersion''),
        (''Dirty'', aws_Bool dirty),
        (''Version'', aws_Number (Itoa version))] d"

text \<open>
  \<open>Version\<close> of the key-value driver, with its named results: a \<open>Version\<close> attribute that
  does not parse sets \<open>err\<close> and goes on to the \<open>Dirty\<close> attribute.
\<close>

definition dyn_Version :: "DynShell \<Rightarrow> dynamo \<Rightarrow> (goint \<times> bool \<times> error option) \<times> dynamo" where
  "dyn_Version s d =
     (case GetItem (dyn_MigrationsTable (dyn_config s))
             [(''ID'', aws_String ''LatestMigrationVersion'')] d of
        (Inl err, d1) \<Rightarrow> ((0, False, Some err), d1)
      | (Inr result, d1) \<Rightarrow>
          (case map_of result ''ID'' of
             None \<Rightarrow> ((- 1, False, None), d1)
           | Some _ \<Rightarrow>
               (case map_of result ''Version'' of
                  None \<Rightarrow>
                    ((0, False,
                      Some (ErrorString ''could not find Version attribute on dynamodb item'')), d1)
                | Some attr \<Rightarrow>
                    (case attr_N attr of
                       None \<Rightarrow>
                         ((0, False,
                           Some (ErrorString
                                   ''expected Version attribute to have type N on dynamodb item'')),
                          d1)
                     | Some versionString \<Rightarrow>
                         (let (version, err) =
                                (case Atoi versionString of
                                   (v, Some e) \<Rightarrow>
                                     (v, Some (Errorf
                                         ''could not parse Version attribute on dynamodb item'' e))
                                 | (v, None) \<Rightarrow> (v, None))
                          in case map_of result ''Dirty'' of
                               None \<Rightarrow>
                                 ((version, False,
                                   Some (ErrorString
                                           ''could not find Dirty attribute on dynamodb item'')),
                                  d1)
                             | Some attr' \<Rightarrow>
                                 (case attr_BOOL attr' of
                                    None \<Rightarrow>
                                      ((version, False,
                                        Some (ErrorString
                                          ''expected Dirty attribute to have type BOOL on dynamodb item'')),
                                       d1)
                                  | Some dirtyRef \<Rightarrow> ((version, dirtyRef, err), d1)))))))"

definition dyn_Close :: "DynShell \<Rightarrow> dynamo \<Rightarrow> error option \<times> dynamo" where
  "dyn_Close s d = (None, d)"

definition dyn_Drop :: "DynShell \<Rightarrow> dynamo \<Rightarrow> error option \<times> dynamo" where
  "dyn_Drop s d = (None, d)"

definition dyn_Lock :: "DynShell \<Rightarrow> dynamo \<Rightarrow> error option \<times> dynamo" where
  "dyn_Lock s d = (None, d)"

definition dyn_Unlock :: "DynShell \<Rightarrow> dynamo \<Rightarrow> error option \<times> dynamo" where
  "dyn_Unlock s d = (None, d)"

text \<open>\<open>strconv.ParseBool\<close>.\<close>

definition ParseBool :: "string \<Rightarrow> error + bool" where
  "ParseBool str =
     (if str \<in> set [''1'', ''t'', ''T'', ''TRUE'', ''true'', ''True''] then Inr True
      else if str \<in> set [''0'', ''f'', ''F'', ''FALSE'', ''false'', ''False''] then Inr False
      else Inl (ErrSyntax str))"

text \<open>
  \<open>Open\<close> of the key-value driver; \<open>time.ParseDuration\<close> is the parameter \<open>ParseDuration\<close>.
\<close>

definition dyn_Open ::
  "(string \<Rightarrow> error + URL) \<Rightarrow> (string \<Rightarrow> error + goint) \<Rightarrow> string \<Rightarrow> dynamo
     \<Rightarrow> (error + DynShell) \<times> dynamo" where
  "dyn_Open nurl_Parse ParseDuration url d =
     (case nurl_Parse url of
        Inl err \<Rightarrow> (Inl err, d)
      | Inr shellURL \<Rightarrow>
          (let timeoutString = Get (Query shellURL) ''x-timeout'' in
           case (if timeoutString \<noteq> [] then ParseDuration timeoutString else Inr 0) of
             Inl err \<Rightarrow> (Inl err, d)
           | Inr timeout \<Rightarrow>
               (let verboseString = Get (Query shellURL) ''x-verbose'' in
                case (if verboseString \<noteq> [] then ParseBool verboseString else Inr True) of
                  Inl err \<Rightarrow> (Inl err, d)
                | Inr verbose \<Rightarrow>
                    (let dynamodbTable = Get (Query shellURL) ''x-dynamodb-table'' in
                     case session_NewSession d of
                       (Some err, d1) \<Rightarrow> (Inl err, d1)
                     | (None, d1) \<Rightarrow>
                         (Inr \<lparr>dyn_config = \<lparr>dyn_MigrationsTable = dynamodbTable,
                                              dyn_Timeout = timeout,
                                              dyn_Verbose = verbose\<rparr>\<rparr>, d1)))))"

section \<open>Two relational handles on one server\<close>

text \<open>
  Calls of two open handles, in any order, against the same backend. A call that does not
  return (a \<open>Lock\<close> waiting for the key) leaves everything as it was: it has not happened yet.
\<close>

datatype driver_op = OpLock | OpUnlock | OpSetVersion goint bool | OpVersion | OpDrop

fun driver_call :: "lockid \<Rightarrow> driver_op \<Rightarrow> Shell \<Rightarrow> world \<Rightarrow> Shell \<times> world" where
  "driver_call gen OpLock p w =
     (case Lock gen p w of None \<Rightarrow> (p, w) | Some (_, p', w') \<Rightarrow> (p', w'))"
| "driver_call gen OpUnlock p w =
     (case Unlock gen p w of None \<Rightarrow> (p, w) | Some (_, p', w') \<Rightarrow> (p', w'))"
| "driver_call gen (OpSetVersion v d) p w =
     (case SetVersion p v d w of None \<Rightarrow> (p, w) | Some (_, w') \<Rightarrow> (p, w'))"
| "driver_call gen OpVersion p w =
     (case Version p w of None \<Rightarrow> (p, w) | Some (_, w') \<Rightarrow> (p, w'))"
| "driver_call gen OpDrop p w =
     (case Drop p w of None \<Rightarrow> (p, w) | Some (_, w') \<Rightarrow> (p, w'))"





text \<open>Calls of one handle, one after the other.\<close>

fun calls :: "lockid \<Rightarrow> driver_op list \<Rightarrow> Shell \<Rightarrow> world \<Rightarrow> Shell \<times> world" where
  "calls gen [] p w = (p, w)"
| "calls gen (c # cs) p w = (case driver_call gen c p w of (p', w') \<Rightarrow> calls gen cs p' w')"

text \<open>The same calls on a handle of the key-value driver.\<close>

fun dyn_driver_call :: "driver_op \<Rightarrow> DynShell \<Rightarrow> dynamo \<Rightarrow> dynamo" where
  "dyn_driver_call OpLock s d = snd (dyn_Lock s d)"
| "dyn_driver_call OpUnlock s d = snd (dyn_Unlock s d)"
| "dyn_driver_call (OpSetVersion v b) s d = snd (dyn_SetVersion s v b d)"
| "dyn_driver_call OpVersion s d = snd (dyn_Version s d)"
| "dyn_driver_call OpDrop s d = snd (dyn_Drop s d)"

fun dyn_calls :: "driver_op list \<Rightarrow> DynShell \<Rightarrow> dynamo \<Rightarrow> dynamo" where
  "dyn_calls [] s d = d"
| "dyn_calls (c # cs) s d = dyn_calls cs s (dyn_driver_call c s d)"

text \<open>The handle's session holds the advisory lock of the handle's target.\<close>

definition holds_lock :: "lockid \<Rightarrow> Shell \<Rightarrow> world \<Rightarrow> bool" where
  "holds_lock gen p w =
     (case gen (DatabaseName (config p)) (SchemaName (config p)) of
        Inl _ \<Rightarrow> False
      | Inr aid \<Rightarrow>
          (case advisory w aid of
             None \<Rightarrow> False
           | Some (c, n) \<Rightarrow> c = conn p \<and> 0 < n))"

section \<open>What a reader of the version store sees\<close>

text \<open>The rows \<open>SetVersion\<close> leaves in the version table when it commits.\<close>

definition stored_rows :: "goint \<Rightarrow> bool \<Rightarrow> row list" where
  "stored_rows version dirty =
     (if 0 \<le> sint version \<or> (version = NilVersion \<and> dirty) then [(version, dirty)] else [])"

text \<open>What \<open>Version\<close> returns on \<open>w\<close> when no failure is injected into its own query.\<close>

definition observed :: "Shell \<Rightarrow> world \<Rightarrow> (goint \<times> bool \<times> error option) option" where
  "observed p w = map_option fst (Version p (w\<lparr>faults := []\<rparr>))"

text \<open>Two backends with the same tables, advisory locks and session data.\<close>

definition same_data :: "world \<Rightarrow> world \<Rightarrow> bool" where
  "same_data w w' \<longleftrightarrow>
     tables w' = tables w \<and> advisory w' = advisory w \<and> next_conn w' = next_conn w \<and>
     current_database w' = current_database w \<and> current_schema w' = current_schema w"

text \<open>
  What \<open>Version\<close> of the key-value driver returns when no failure is injected into its
  \<open>GetItem\<close>.
\<close>

definition dyn_observed :: "DynShell \<Rightarrow> dynamo \<Rightarrow> goint \<times> bool \<times> error option" where
  "dyn_observed s d = fst (dyn_Version s (d\<lparr>ddb_faults := []\<rparr>))"

text \<open>The item \<open>SetVersion\<close> of the key-value driver puts.\<close>

definition version_item :: "goint \<Rightarrow> bool \<Rightarrow> item" where
  "version_item version dirty =
     [(''ID'', aws_String ''LatestMigrationVersion''),
      (''Dirty'', aws_Bool dirty),
      (''Version'', aws_Number (Itoa version))]"

text \<open>The flag of a handle is sound when a set flag means the session holds the lock.\<close>

definition flag_sound :: "lockid \<Rightarrow> Shell \<Rightarrow> world \<Rightarrow> bool" where
  "flag_sound gen p w \<longleftrightarrow> (\<not> isLocked p \<or> holds_lock gen p w)"

text \<open>A call of session \<open>c\<close> leaves the advisory locks of every other session as they were.\<close>

definition others_kept :: "nat \<Rightarrow> world \<Rightarrow> world \<Rightarrow> bool" where
  "others_kept c w w' \<longleftrightarrow>
     (\<forall>k c' n. advisory w k = Some (c', n) \<and> c' \<noteq> c \<longrightarrow> advisory w' k = Some (c', n))"


text \<open>Every call recorded so far was made with \<open>context.Background()\<close>, which has no deadline.\<close>

definition all_background :: "world \<Rightarrow> bool" where
  "all_background w \<longleftrightarrow> list_all (\<lambda>x. fst x = Background) (sent w)"

subsection \<open>Concrete values for the examples\<close>

definition demo_dyn_shell :: DynShell where
  "demo_dyn_shell =
     \<lparr>dyn_config = \<lparr>dyn_MigrationsTable = ''migrations'', dyn_Timeout = 0, dyn_Verbose = True\<rparr>\<rparr>"

definition demo_dynamo :: dynamo where
  "demo_dynamo = \<lparr>ddb_tables = [(''migrations'', [])], ddb_faults = []\<rparr>"

definition empty_dynamo :: dynamo where
  "empty_dynamo = \<lparr>ddb_tables = [], ddb_faults = []\<rparr>"

definition demo_config :: Config where
  "demo_config =
     \<lparr>MigrationsTable = ''schema_migrations'', DatabaseName = ''app'',
      SchemaName = ''public'', StatementTimeout = 0\<rparr>"

definition demo_shell :: "nat \<Rightarrow> Shell" where
  "demo_shell c = \<lparr>conn = c, isLocked = False, config = demo_config\<rparr>"

definition demo_world :: world where
  "demo_world =
     \<lparr>tables = [(''users'', []), (''schema_migrations'', [])],
      advisory = Map.empty,
      current_database = ''app'', current_schema = ''public'',
      next_conn = 3, faults = [], sent = []\<rparr>"

definition demo_gen :: lockid where
  "demo_gen databaseName schemaName = Inr (schemaName @ ''/'' @ databaseName)"

text \<open>
  A parsed URL that sets a statement timeout of 5 (milliseconds), and the handle \<open>Open\<close>
  gives for it.
\<close>

definition demo_parse :: "string \<Rightarrow> error + URL" where
  "demo_parse url =
     Inr \<lparr>Path = ''/app'',
          Query = [(''x-statement-timeout'', [''5'']),
                   (''x-migrations-table'', [''schema_migrations'']),
                   (''x-dynamodb-table'', [''migrations''])]\<rparr>"

definition demo_opened :: Shell where
  "demo_opened =
     \<lparr>conn = 3, isLocked = False,
      config = \<lparr>MigrationsTable = ''schema_migrations'', DatabaseName = ''/app'',
                SchemaName = ''public'', StatementTimeout = 5 * Millisecond\<rparr>\<rparr>"


section \<open>Properties of the backend calls\<close>

lemma call_nofault:
  "faults w = [] \<Longrightarrow> call c r w = (None, w\<lparr>sent := sent w @ [(c, r)]\<rparr>)"
  by (simp add: call_def)

lemma call_result:
  "call c r w = (f, w') \<Longrightarrow>
     tables w' = tables w \<and> advisory w' = advisory w \<and> next_conn w' = next_conn w \<and>
     current_database w' = current_database w \<and> current_schema w' = current_schema w \<and>
     sent w' = sent w @ [(c, r)]"
  by (auto simp: call_def split: list.splits)

lemma same_data_refl [simp]: "same_data w w"
  by (simp add: same_data_def)

lemma same_data_trans: "same_data a b \<Longrightarrow> same_data b c \<Longrightarrow> same_data a c"
  by (simp add: same_data_def)

lemma call_same_data: "call c r w = (f, w') \<Longrightarrow> same_data w w'"
  by (auto simp: call_def same_data_def split: list.splits)

lemma map_of_set_rows:
  "map_of (set_rows t rs ts) t' =
     (if t' = t then (case map_of ts t of None \<Rightarrow> None | Some _ \<Rightarrow> Some rs) else map_of ts t')"
  by (induction ts) (auto simp: set_rows_def)

lemma set_rows_twice [simp]: "set_rows t a (set_rows t b ts) = set_rows t a ts"
  by (induction ts) (auto simp: set_rows_def)

lemma sint_minus1: "- 1 \<le> sint (v :: goint) \<Longrightarrow> \<not> 0 \<le> sint v \<Longrightarrow> v = - 1"
proof -
  assume "- 1 \<le> sint v" "\<not> 0 \<le> sint v"
  then have "sint v = - 1" by linarith
  then have "word_of_int (sint v) = (word_of_int (- 1) :: goint)" by simp
  then show ?thesis by simp
qed

lemma conn_BeginTx_result:
  "conn_BeginTx c cx w = (r, w') \<Longrightarrow>
     same_data w w' \<and> (\<forall>tx. r = Inr tx \<longrightarrow> tx_tables tx = tables w)"
  by (auto simp: conn_BeginTx_def same_data_def dest!: call_result split: prod.splits option.splits)

lemma tx_Exec_Truncate:
  "\<exists>r tx' w'. tx_Exec tx (Truncate t) w = Some (r, tx', w') \<and> same_data w w' \<and>
     (case r of Inl _ \<Rightarrow> True
      | Inr _ \<Rightarrow> map_of (tx_tables tx) t \<noteq> None \<and> tx_tables tx' = set_rows t [] (tx_tables tx))"
  by (auto simp: tx_Exec_def same_data_def dest!: call_result split: prod.splits option.splits)

lemma tx_Exec_Insert:
  "\<exists>r tx' w'. tx_Exec tx (InsertVersion t v d) w = Some (r, tx', w') \<and> same_data w w' \<and>
     (case r of Inl _ \<Rightarrow> True
      | Inr _ \<Rightarrow> (\<exists>rs. map_of (tx_tables tx) t = Some rs \<and>
                   tx_tables tx' = set_rows t (rs @ [(v, d)]) (tx_tables tx)))"
  by (auto simp: tx_Exec_def same_data_def dest!: call_result split: prod.splits option.splits)

lemma tx_Commit_result:
  "tx_Commit tx w = (r, w') \<Longrightarrow>
     advisory w' = advisory w \<and> next_conn w' = next_conn w \<and>
     current_database w' = current_database w \<and> current_schema w' = current_schema w \<and>
     (case r of None \<Rightarrow> tables w' = tx_tables tx | Some _ \<Rightarrow> tables w' = tables w)"
  by (auto simp: tx_Commit_def dest!: call_result split: prod.splits option.splits)

lemma rollback_with_result: "rollback_with err tx w = (e, w') \<Longrightarrow> same_data w w'"
  by (auto simp: rollback_with_def tx_Rollback_def dest!: call_same_data
      split: prod.splits option.splits)

section \<open>SetVersion and Version of the relational driver\<close>

lemma SetVersion_nofault:
  assumes "faults w = []" and "map_of (tables w) (MigrationsTable (config p)) = Some rs"
  shows "SetVersion p version dirty w =
     Some (None,
           w\<lparr>tables := set_rows (MigrationsTable (config p)) (stored_rows version dirty) (tables w),
             sent := sent w
               @ [(Background, Begin),
                  (Background, Stmt (Truncate (MigrationsTable (config p))))]
               @ (if 0 \<le> sint version \<or> (version = NilVersion \<and> dirty)
                  then [(Background,
                         Stmt (InsertVersion (MigrationsTable (config p)) version dirty))]
                  else [])
               @ [(Background, Commit)]\<rparr>)"
  using assms
  by (simp add: SetVersion_def conn_BeginTx_def tx_Exec_def tx_Commit_def call_nofault
      map_of_set_rows stored_rows_def)

lemma Version_nofault_rows:
  assumes "faults w = []" and "map_of (tables w) (MigrationsTable (config p)) = Some rs"
  shows "Version p w =
     Some ((case rs of [] \<Rightarrow> (NilVersion, False, None) | (v, d) # _ \<Rightarrow> (v, d, None)),
           w\<lparr>sent := sent w
                @ [(Background, Stmt (SelectVersionLimit1 (MigrationsTable (config p))))]\<rparr>)"
  using assms
  by (cases rs)
     (auto simp: Version_def conn_QueryRowContext_def conn_QueryContext_def conn_ExecContext_def
        call_nofault Scan_int_bool_def)

lemma Version_nofault_absent:
  assumes "faults w = []" and "map_of (tables w) (MigrationsTable (config p)) = None"
  shows "Version p w =
     Some ((NilVersion, False, None),
           w\<lparr>sent := sent w
                @ [(Background, Stmt (SelectVersionLimit1 (MigrationsTable (config p))))]\<rparr>)"
  using assms
  by (simp add: Version_def conn_QueryRowContext_def conn_QueryContext_def conn_ExecContext_def
      call_nofault)

lemma stored_rows_read:
  "- 1 \<le> sint version \<Longrightarrow>
   (case stored_rows version dirty of [] \<Rightarrow> (NilVersion, False, None) | (v, d) # _ \<Rightarrow> (v, d, None))
     = (version, dirty, None)"
  by (auto simp: stored_rows_def NilVersion_def dest: sint_minus1)

lemma observed_eq:
  "observed p w =
     (case map_of (tables w) (MigrationsTable (config p)) of
        None \<Rightarrow> Some (NilVersion, False, None)
      | Some rs \<Rightarrow>
          Some (case rs of [] \<Rightarrow> (NilVersion, False, None) | (v, d) # _ \<Rightarrow> (v, d, None)))"
proof (cases "map_of (tables w) (MigrationsTable (config p))")
  case None
  then have "map_of (tables (w\<lparr>faults := []\<rparr>)) (MigrationsTable (config p)) = None" by simp
  from Version_nofault_absent [OF _ this] None show ?thesis
    by (simp add: observed_def)
next
  case (Some rs)
  then have "map_of (tables (w\<lparr>faults := []\<rparr>)) (MigrationsTable (config p)) = Some rs" by simp
  from Version_nofault_rows [OF _ this] Some show ?thesis
    by (simp add: observed_def)
qed

text \<open>
  Every path of \<open>SetVersion\<close>, whatever failures are injected: the call returns; it leaves
  the advisory locks alone; with no error the version table holds exactly \<open>stored_rows\<close>;
  with an error the tables are the ones before the call.
\<close>

lemma SetVersion_outcome:
  "\<exists>err w'. SetVersion p version dirty w = Some (err, w') \<and>
     advisory w' = advisory w \<and> next_conn w' = next_conn w \<and>
     current_database w' = current_database w \<and> current_schema w' = current_schema w \<and>
     ((err = None \<and> map_of (tables w) (MigrationsTable (config p)) \<noteq> None \<and>
       tables w' = set_rows (MigrationsTable (config p)) (stored_rows version dirty) (tables w))
      \<or> (err \<noteq> None \<and> tables w' = tables w))"
proof -
  let ?t = "MigrationsTable (config p)"
  obtain r0 w1 where b: "conn_BeginTx (conn p) Background w = (r0, w1)"
    by (cases "conn_BeginTx (conn p) Background w")
  from conn_BeginTx_result [OF b]
  have d1: "same_data w w1" and t0: "\<forall>tx. r0 = Inr tx \<longrightarrow> tx_tables tx = tables w"
    by auto
  show ?thesis
  proof (cases r0)
    case (Inl e)
    with b d1 show ?thesis
      by (simp add: SetVersion_def same_data_def)
  next
    case (Inr tx)
    with t0 have tx: "tx_tables tx = tables w" by simp
    obtain r1 tx1 w2 where
      e1: "tx_Exec tx (Truncate ?t) w1 = Some (r1, tx1, w2)" and d2: "same_data w1 w2" and
      k1: "case r1 of Inl _ \<Rightarrow> True
           | Inr _ \<Rightarrow> map_of (tx_tables tx) ?t \<noteq> None \<and> tx_tables tx1 = set_rows ?t [] (tx_tables tx)"
      using tx_Exec_Truncate [of tx ?t w1] by blast
    show ?thesis
    proof (cases r1)
      case (Inl e)
      obtain e' w3 where rb: "rollback_with e tx1 w2 = (e', w3)"
        by (cases "rollback_with e tx1 w2")
      from rollback_with_result [OF rb] d1 d2 have "same_data w w3"
        by (blast intro: same_data_trans)
      with b Inr e1 Inl rb show ?thesis
        by (simp add: SetVersion_def same_data_def)
    next
      case r1: (Inr v1)
      with k1 tx have ex: "map_of (tables w) ?t \<noteq> None"
        and t1: "tx_tables tx1 = set_rows ?t [] (tables w)" by auto
      show ?thesis
      proof (cases "0 \<le> sint version \<or> (version = NilVersion \<and> dirty)")
        case False
        obtain r3 w3 where c: "tx_Commit tx1 w2 = (r3, w3)"
          by (cases "tx_Commit tx1 w2")
        from tx_Commit_result [OF c] d1 d2 t1 ex False
        have "advisory w3 = advisory w \<and> next_conn w3 = next_conn w \<and>
              current_database w3 = current_database w \<and> current_schema w3 = current_schema w \<and>
              ((r3 = None \<and> tables w3 = set_rows ?t (stored_rows version dirty) (tables w))
               \<or> (r3 \<noteq> None \<and> tables w3 = tables w))"
          by (cases r3) (auto simp: same_data_def stored_rows_def)
        with b Inr e1 r1 False c ex show ?thesis
          by (cases r3) (auto simp: SetVersion_def)
      next
        case True
        obtain r2 tx2 w3 where
          e2: "tx_Exec tx1 (InsertVersion ?t version dirty) w2 = Some (r2, tx2, w3)" and
          d3: "same_data w2 w3" and
          k2: "case r2 of Inl _ \<Rightarrow> True
               | Inr _ \<Rightarrow> (\<exists>rs. map_of (tx_tables tx1) ?t = Some rs \<and>
                            tx_tables tx2 = set_rows ?t (rs @ [(version, dirty)]) (tx_tables tx1))"
          using tx_Exec_Insert [of tx1 ?t version dirty w2] by blast
        show ?thesis
        proof (cases r2)
          case (Inl e)
          obtain e' w4 where rb: "rollback_with e tx2 w3 = (e', w4)"
            by (cases "rollback_with e tx2 w3")
          from rollback_with_result [OF rb] d1 d2 d3 have "same_data w w4"
            by (blast intro: same_data_trans)
          with b Inr e1 r1 True e2 Inl rb show ?thesis
            by (simp add: SetVersion_def same_data_def)
        next
          case r2: (Inr v2)
          from ex t1 have "map_of (tx_tables tx1) ?t = Some []"
            by (auto simp: map_of_set_rows)
          with k2 r2 t1 have t2: "tx_tables tx2 = set_rows ?t [(version, dirty)] (tables w)"
            by auto
          obtain r3 w4 where c: "tx_Commit tx2 w3 = (r3, w4)"
            by (cases "tx_Commit tx2 w3")
          from tx_Commit_result [OF c] d1 d2 d3 t2 True
          have "advisory w4 = advisory w \<and> next_conn w4 = next_conn w \<and>
                current_database w4 = current_database w \<and> current_schema w4 = current_schema w \<and>
                ((r3 = None \<and> tables w4 = set_rows ?t (stored_rows version dirty) (tables w))
                 \<or> (r3 \<noteq> None \<and> tables w4 = tables w))"
            by (cases r3) (auto simp: same_data_def stored_rows_def)
          with b Inr e1 r1 True e2 r2 c ex show ?thesis
            by (cases r3) (auto simp: SetVersion_def)
        qed
      qed
    qed
  qed
qed

section \<open>Drop of the relational driver\<close>

lemma map_of_drop_table:
  "map_of (drop_table t ts) t' = (if t' = t then None else map_of ts t')"
  by (induction ts) (auto simp: drop_table_def)

lemma scan_tableNames_catalogue:
  "scan_tableNames (map (\<lambda>(n, _). [VString n]) ts) acc
     = Inr (acc @ filter (\<lambda>n. n \<noteq> []) (map fst ts))"
  by (induction ts arbitrary: acc) (auto simp: Scan_string_def)

lemma drop_each_nofault:
  "faults w = [] \<Longrightarrow>
   drop_each c names w =
     Some (None, w\<lparr>tables := fold drop_table names (tables w),
                   sent := sent w @ map (\<lambda>t. (Background, Stmt (DropTableIfExistsCascade t))) names\<rparr>)"
  by (induction names arbitrary: w) (simp_all add: conn_ExecContext_def call_nofault)

lemma map_of_fold_drop:
  "map_of (fold drop_table names ts) t = (if t \<in> set names then None else map_of ts t)"
  by (induction names arbitrary: ts) (auto simp: map_of_drop_table)

lemma map_of_eq_None_fst: "t \<notin> set (map fst ts) \<Longrightarrow> map_of ts t = None"
  by (simp add: map_of_eq_None_iff)

lemma Drop_nofault:
  assumes "faults w = []"
  shows "\<exists>w'. Drop p w = Some (None, w') \<and> faults w' = [] \<and>
           (\<forall>t. t \<noteq> [] \<longrightarrow> map_of (tables w') t = None)"
proof -
  let ?names = "filter (\<lambda>n. n \<noteq> []) (map fst (tables w))"
  let ?w1 = "w\<lparr>sent := sent w @ [(Background, Stmt SelectBaseTables)]\<rparr>"
  have q: "conn_QueryContext (conn p) Background SelectBaseTables w
            = Some (Inr (map (\<lambda>(n, _). [VString n]) (tables w)), ?w1)"
    using assms by (simp add: conn_QueryContext_def conn_ExecContext_def call_nofault)
  have f1: "faults ?w1 = []" using assms by simp
  have d: "\<exists>w'. Drop p w = Some (None, w') \<and> faults w' = [] \<and>
             tables w' = fold drop_table ?names (tables w)"
    using assms
    by (simp add: Drop_def q scan_tableNames_catalogue drop_each_nofault [OF f1]
        close_rows_def rows_Close_def call_nofault)
  then obtain w' where w': "Drop p w = Some (None, w')" "faults w' = []"
    "tables w' = fold drop_table ?names (tables w)" by blast
  have "map_of (tables w') t = None" if "t \<noteq> []" for t
  proof (cases "t \<in> set (map fst (tables w))")
    case True
    with that have "t \<in> set ?names" by simp
    then show ?thesis by (simp add: w'(3) map_of_fold_drop)
  next
    case False
    then have "map_of (tables w) t = None" by (rule map_of_eq_None_fst)
    then show ?thesis by (simp add: w'(3) map_of_fold_drop)
  qed
  with w' show ?thesis by blast
qed

section \<open>Itoa and Atoi are inverse\<close>

lemma digits_value_snoc:
  "digits_value (ds @ [c]) = digits_value ds * 10 + (of_char c - 48)"
  by (simp add: digits_value_def)

lemma digit_char: "(d::nat) < 10 \<Longrightarrow> (of_char (char_of (48 + d) :: char) :: nat) = 48 + d"
  by simp

lemma formatBits_digits: "list_all is_digit (formatBits u)"
proof (induction u rule: formatBits.induct)
  case (1 u)
  show ?case
  proof (cases "u < 10")
    case True
    then show ?thesis by (subst formatBits.simps) (simp add: is_digit_def)
  next
    case False
    have "u mod 10 < 10" by simp
    then have "is_digit (char_of (48 + u mod 10))" by (simp add: is_digit_def)
    with False 1 show ?thesis by (subst formatBits.simps) simp
  qed
qed

lemma formatBits_nonempty: "formatBits u \<noteq> []"
  by (subst formatBits.simps) simp

lemma formatBits_value: "digits_value (formatBits u) = u"
proof (induction u rule: formatBits.induct)
  case (1 u)
  show ?case
  proof (cases "u < 10")
    case True
    then show ?thesis by (subst formatBits.simps) (simp add: digits_value_def)
  next
    case False
    have "u mod 10 < 10" by simp
    then have "(of_char (char_of (48 + u mod 10) :: char) :: nat) = 48 + u mod 10"
      by (rule digit_char)
    with False 1 show ?thesis
      by (subst formatBits.simps) (simp add: digits_value_snoc)
  qed
qed

lemma is_digit_not_sign: "is_digit c \<Longrightarrow> c \<noteq> CHR ''-'' \<and> c \<noteq> CHR ''+''"
  by (auto simp: is_digit_def)

lemma strip_sign_digits:
  "ds \<noteq> [] \<Longrightarrow> list_all is_digit ds \<Longrightarrow> strip_sign ds = (False, ds)"
  by (cases ds) (auto simp: strip_sign_def dest: is_digit_not_sign)

lemma Atoi_Itoa: "Atoi (Itoa v) = (v, None)"
proof (cases "sint v < 0")
  case True
  let ?n = "nat (- sint v)"
  have b: "?n \<le> 2 ^ 63"
    using sint_ge [of v] by simp
  have "(- of_nat ?n :: goint) = - word_of_int (- sint v)"
    using True by (simp add: of_nat_nat)
  then have w: "(- of_nat ?n :: goint) = v" by simp
  have "strip_sign (Itoa v) = (True, formatBits ?n)"
    using True by (simp add: Itoa_def strip_sign_def)
  with b w show ?thesis
    by (simp add: Atoi_def formatBits_digits formatBits_nonempty formatBits_value)
next
  case False
  let ?n = "nat (sint v)"
  have "sint v < 2 ^ 63" using sint_lt [of v] by simp
  with False have b: "?n < 2 ^ 63" by simp
  have w: "(of_nat ?n :: goint) = v"
    using False by (simp add: of_nat_nat)
  have "strip_sign (Itoa v) = (False, formatBits ?n)"
    using False by (simp add: Itoa_def strip_sign_digits formatBits_digits formatBits_nonempty)
  with b w show ?thesis
    by (simp add: Atoi_def formatBits_digits formatBits_nonempty formatBits_value)
qed


section \<open>SetVersion and Version of the key-value driver\<close>

lemma map_of_map_upd:
  "map_of (map (\<lambda>(n, old). if n = t then (n, f old) else (n, old)) ts) t' =
     (if t' = t then map_option f (map_of ts t) else map_of ts t')"
  by (induction ts) auto

lemma dyn_SetVersion_nofault:
  assumes "ddb_faults d = []"
    and "map_of (ddb_tables d) (dyn_MigrationsTable (dyn_config s)) = Some items"
  shows "\<exists>d'. dyn_SetVersion s version dirty d = (None, d') \<and> ddb_faults d' = [] \<and>
           map_of (ddb_tables d') (dyn_MigrationsTable (dyn_config s))
             = Some (put_item ''LatestMigrationVersion'' (version_item version dirty) items)"
  using assms
  by (simp add: dyn_SetVersion_def PutItem_def ddb_call_def key_of_def aws_String_def
      version_item_def map_of_map_upd)

lemma dyn_Version_item:
  assumes "ddb_faults d = []"
    and "map_of (ddb_tables d) (dyn_MigrationsTable (dyn_config s)) = Some items"
    and "map_of items ''LatestMigrationVersion'' = Some (version_item version dirty)"
  shows "dyn_Version s d = ((version, dirty, None), d)"
  using assms
  by (simp add: dyn_Version_def GetItem_def ddb_call_def key_of_def aws_String_def
      aws_Number_def aws_Bool_def version_item_def Atoi_Itoa)

lemma dyn_Version_no_item:
  assumes "ddb_faults d = []"
    and "map_of (ddb_tables d) (dyn_MigrationsTable (dyn_config s)) = Some items"
    and "map_of items ''LatestMigrationVersion'' = None"
  shows "dyn_Version s d = ((- 1, False, None), d)"
  using assms
  by (simp add: dyn_Version_def GetItem_def ddb_call_def key_of_def aws_String_def)

lemma dyn_Version_no_table:
  assumes "ddb_faults d = []"
    and "map_of (ddb_tables d) (dyn_MigrationsTable (dyn_config s)) = None"
  shows "dyn_Version s d = ((0, False, Some (AwsError ''ResourceNotFoundException'')), d)"
  using assms
  by (simp add: dyn_Version_def GetItem_def ddb_call_def)

section \<open>Sequences of SetVersion in both drivers\<close>

lemma faults_nil_same: "faults w = [] \<Longrightarrow> w\<lparr>faults := []\<rparr> = w"
  by (cases w) simp

lemma ddb_faults_nil_same: "ddb_faults d = [] \<Longrightarrow> d\<lparr>ddb_faults := []\<rparr> = d"
  by (cases d) simp

lemma map_of_put_item [simp]: "map_of (put_item k it items) k = Some it"
  by (simp add: put_item_def)

lemma SetVersion_step:
  assumes "- 1 \<le> sint v" and "faults w = []"
    and "map_of (tables w) (MigrationsTable (config p)) \<noteq> None"
  shows "\<exists>w1. driver_call gen (OpSetVersion v b) p w = (p, w1) \<and> faults w1 = [] \<and>
           map_of (tables w1) (MigrationsTable (config p)) \<noteq> None \<and>
           observed p w1 = Some (v, b, None)"
proof -
  from assms(3) obtain rs where rs: "map_of (tables w) (MigrationsTable (config p)) = Some rs"
    by blast
  define w1 where "w1 = snd (the (SetVersion p v b w))"
  from SetVersion_nofault [OF assms(2) rs, of v b]
  have s: "SetVersion p v b w = Some (None, w1)" and f: "faults w1 = []"
    and t: "tables w1 = set_rows (MigrationsTable (config p)) (stored_rows v b) (tables w)"
    by (simp_all add: w1_def assms(2))
  from t rs have m: "map_of (tables w1) (MigrationsTable (config p)) = Some (stored_rows v b)"
    by (simp add: map_of_set_rows)
  then have "observed p w1 = Some (v, b, None)"
    using assms(1) by (simp add: observed_eq stored_rows_read)
  with s f m show ?thesis by simp
qed

lemma dyn_SetVersion_step:
  assumes "ddb_faults d = []"
    and "map_of (ddb_tables d) (dyn_MigrationsTable (dyn_config s)) \<noteq> None"
  shows "ddb_faults (dyn_driver_call (OpSetVersion v b) s d) = [] \<and>
         map_of (ddb_tables (dyn_driver_call (OpSetVersion v b) s d))
           (dyn_MigrationsTable (dyn_config s)) \<noteq> None \<and>
         dyn_observed s (dyn_driver_call (OpSetVersion v b) s d) = (v, b, None)"
proof -
  from assms(2) obtain items where
    it: "map_of (ddb_tables d) (dyn_MigrationsTable (dyn_config s)) = Some items" by blast
  from dyn_SetVersion_nofault [OF assms(1) it, of v b] obtain d' where
    s: "dyn_SetVersion s v b d = (None, d')" and f: "ddb_faults d' = []" and
    m: "map_of (ddb_tables d') (dyn_MigrationsTable (dyn_config s))
          = Some (put_item ''LatestMigrationVersion'' (version_item v b) items)" by blast
  have "dyn_Version s d' = ((v, b, None), d')"
    by (rule dyn_Version_item [OF f m]) simp
  with s f m show ?thesis
    by (simp add: dyn_observed_def ddb_faults_nil_same)
qed

lemma SetVersion_sequence:
  assumes "\<forall>(v, b) \<in> set vds. - 1 \<le> sint v"
    and "faults w = []"
    and "map_of (tables w) (MigrationsTable (config p)) \<noteq> None"
    and "ddb_faults d = []"
    and "map_of (ddb_tables d) (dyn_MigrationsTable (dyn_config s)) \<noteq> None"
    and "vds \<noteq> [] \<or> observed p w = Some (dyn_observed s d)"
  shows "\<exists>w'. calls gen (map (\<lambda>(v, b). OpSetVersion v b) vds) p w = (p, w') \<and>
           faults w' = [] \<and>
           observed p w'
             = Some (dyn_observed s (dyn_calls (map (\<lambda>(v, b). OpSetVersion v b) vds) s d))"
  using assms
proof (induction vds arbitrary: w d)
  case Nil
  then show ?case by simp
next
  case (Cons x vds)
  obtain v b where x: "x = (v, b)" by (cases x)
  with Cons.prems(1) have v: "- 1 \<le> sint v" and rest: "\<forall>(v, b) \<in> set vds. - 1 \<le> sint v"
    by auto
  from SetVersion_step [OF v Cons.prems(2,3), of gen b] obtain w1 where
    c: "driver_call gen (OpSetVersion v b) p w = (p, w1)" and f1: "faults w1 = []" and
    t1: "map_of (tables w1) (MigrationsTable (config p)) \<noteq> None" and
    o1: "observed p w1 = Some (v, b, None)" by blast
  let ?d1 = "dyn_driver_call (OpSetVersion v b) s d"
  from dyn_SetVersion_step [OF Cons.prems(4,5), of v b]
  have g1: "ddb_faults ?d1 = []"
    and u1: "map_of (ddb_tables ?d1) (dyn_MigrationsTable (dyn_config s)) \<noteq> None"
    and q1: "dyn_observed s ?d1 = (v, b, None)" by simp_all
  from o1 q1 have "vds \<noteq> [] \<or> observed p w1 = Some (dyn_observed s ?d1)" by simp
  from Cons.IH [OF rest f1 t1 g1 u1 this] c x show ?case by simp
qed

lemmas pg_defs = Version_def SetVersion_def Drop_def Lock_def Unlock_def
  conn_QueryRowContext_def conn_QueryContext_def conn_ExecContext_def conn_BeginTx_def
  tx_Exec_def tx_Commit_def tx_Rollback_def rollback_with_def close_rows_def rows_Close_def
  call_def Scan_int_bool_def Scan_string_def set_rows_def drop_table_def create_table_def
  NilVersion_def

lemmas dyn_defs = dyn_Version_def dyn_SetVersion_def dyn_Lock_def dyn_Unlock_def dyn_Drop_def
  dyn_Close_def GetItem_def PutItem_def ddb_call_def key_of_def put_item_def
  aws_String_def aws_Number_def aws_Bool_def

lemmas demo_defs = demo_world_def demo_shell_def demo_config_def demo_gen_def
  demo_dynamo_def demo_dyn_shell_def empty_dynamo_def

section \<open>Lock, Unlock and the advisory locks of the server\<close>

lemma others_kept_refl [simp]: "others_kept c w w"
  by (simp add: others_kept_def)

lemma others_kept_advisory: "advisory w' = advisory w \<Longrightarrow> others_kept c w w'"
  by (simp add: others_kept_def)

lemma others_kept_trans: "others_kept c a b \<Longrightarrow> others_kept c b d \<Longrightarrow> others_kept c a d"
  by (simp add: others_kept_def)

lemma pg_exec_advisory_lock:
  "pg_exec c (PgAdvisoryLock k) w = Some (r, w') \<Longrightarrow>
     others_kept c w w' \<and> (\<exists>n. advisory w' k = Some (c, n) \<and> 0 < n) \<and> (\<exists>x. r = Inr x)"
  by (auto simp: others_kept_def split: option.splits if_splits)

lemma pg_exec_advisory_unlock:
  "pg_exec c (PgAdvisoryUnlock k) w = Some (r, w') \<Longrightarrow> others_kept c w w' \<and> (\<exists>x. r = Inr x)"
  by (auto simp: others_kept_def split: option.splits if_splits)

lemma pg_exec_tables_only:
  "pg_exec c q w = Some (r, w') \<Longrightarrow> (\<forall>k. q \<noteq> PgAdvisoryLock k \<and> q \<noteq> PgAdvisoryUnlock k) \<Longrightarrow>
     advisory w' = advisory w"
  by (cases q) (auto split: option.splits if_splits)

lemma conn_ExecContext_cases:
  assumes "conn_ExecContext c cx q w = Some (r, w')"
  shows "(\<exists>e. r = Inl e \<and> same_data w w') \<or>
         (\<exists>w1. same_data w w1 \<and> pg_exec c q w1 = Some (r, w'))"
proof -
  obtain f w1 where c: "call cx (Stmt q) w = (f, w1)" by (cases "call cx (Stmt q) w")
  from call_same_data [OF c] have d: "same_data w w1" .
  show ?thesis
  proof (cases f)
    case (Some e)
    with assms c d show ?thesis by (auto simp: conn_ExecContext_def)
  next
    case None
    with assms c have "pg_exec c q w1 = Some (r, w')"
      by (simp add: conn_ExecContext_def del: pg_exec.simps)
    with d show ?thesis by blast
  qed
qed

lemma Lock_result:
  assumes "Lock gen p w = Some (r, p', w')"
  shows "conn p' = conn p \<and> config p' = config p \<and> others_kept (conn p) w w' \<and>
         (if r = None
          then isLocked p' \<and> holds_lock gen p' w' \<and>
               (\<exists>aid res. gen (DatabaseName (config p)) (SchemaName (config p)) = Inr aid \<and>
                  conn_ExecContext (conn p) Background (PgAdvisoryLock aid) w = Some (Inr res, w'))
          else p' = p \<and> advisory w' = advisory w)"
proof (cases "isLocked p")
  case True
  with assms show ?thesis by (auto simp: Lock_def)
next
  case False
  show ?thesis
  proof (cases "gen (DatabaseName (config p)) (SchemaName (config p))")
    case (Inl e)
    with False assms show ?thesis by (auto simp: Lock_def)
  next
    case (Inr aid)
    from False Inr assms obtain x where
      e: "conn_ExecContext (conn p) Background (PgAdvisoryLock aid) w = Some (x, w')"
      and rp: "(case x of Inl err \<Rightarrow> r \<noteq> None \<and> p' = p
                | Inr _ \<Rightarrow> r = None \<and> p' = p\<lparr>isLocked := True\<rparr>)"
      by (auto simp: Lock_def split: option.splits sum.splits)
    from conn_ExecContext_cases [OF e] show ?thesis
    proof
      assume "\<exists>e. x = Inl e \<and> same_data w w'"
      with rp show ?thesis
        by (auto simp: same_data_def others_kept_advisory)
    next
      assume "\<exists>w1. same_data w w1 \<and> pg_exec (conn p) (PgAdvisoryLock aid) w1 = Some (x, w')"
      then obtain w1 where a1: "same_data w w1"
        and g: "pg_exec (conn p) (PgAdvisoryLock aid) w1 = Some (x, w')" by blast
      from pg_exec_advisory_lock [OF g] obtain res n where
        k: "others_kept (conn p) w1 w'" and h: "advisory w' aid = Some (conn p, n)" "0 < n"
        and x: "x = Inr res" by blast
      from k a1 have "others_kept (conn p) w w'" by (simp add: others_kept_def same_data_def)
      with Inr e x h rp show ?thesis
        by (auto simp: holds_lock_def)
    qed
  qed
qed

lemma Unlock_result:
  assumes "Unlock gen p w = Some (r, p', w')"
  shows "conn p' = conn p \<and> config p' = config p \<and> others_kept (conn p) w w' \<and>
         (if isLocked p \<and> r = None
          then \<not> isLocked p' \<and>
               (\<exists>aid res. gen (DatabaseName (config p)) (SchemaName (config p)) = Inr aid \<and>
                  conn_ExecContext (conn p) Background (PgAdvisoryUnlock aid) w = Some (Inr res, w'))
          else p' = p \<and> advisory w' = advisory w)"
proof (cases "isLocked p")
  case False
  with assms show ?thesis by (auto simp: Unlock_def)
next
  case True
  show ?thesis
  proof (cases "gen (DatabaseName (config p)) (SchemaName (config p))")
    case (Inl e)
    with True assms show ?thesis by (auto simp: Unlock_def)
  next
    case (Inr aid)
    from True Inr assms obtain x where
      e: "conn_ExecContext (conn p) Background (PgAdvisoryUnlock aid) w = Some (x, w')"
      and rp: "(case x of Inl err \<Rightarrow> r \<noteq> None \<and> p' = p
                | Inr _ \<Rightarrow> r = None \<and> p' = p\<lparr>isLocked := False\<rparr>)"
      by (auto simp: Unlock_def split: option.splits sum.splits)
    from conn_ExecContext_cases [OF e] show ?thesis
    proof
      assume "\<exists>e. x = Inl e \<and> same_data w w'"
      with rp True show ?thesis
        by (auto simp: same_data_def others_kept_advisory)
    next
      assume "\<exists>w1. same_data w w1 \<and> pg_exec (conn p) (PgAdvisoryUnlock aid) w1 = Some (x, w')"
      then obtain w1 where a1: "same_data w w1"
        and g: "pg_exec (conn p) (PgAdvisoryUnlock aid) w1 = Some (x, w')" by blast
      from pg_exec_advisory_unlock [OF g] obtain res where
        k: "others_kept (conn p) w1 w'" and x: "x = Inr res" by blast
      from k a1 have "others_kept (conn p) w w'" by (simp add: others_kept_def same_data_def)
      with True Inr e x rp show ?thesis
        by auto
    qed
  qed
qed

lemma conn_ExecContext_tables_only:
  "conn_ExecContext c cx q w = Some (r, w') \<Longrightarrow>
   (\<forall>k. q \<noteq> PgAdvisoryLock k \<and> q \<noteq> PgAdvisoryUnlock k) \<Longrightarrow> advisory w' = advisory w"
proof -
  assume a: "conn_ExecContext c cx q w = Some (r, w')"
    and b: "\<forall>k. q \<noteq> PgAdvisoryLock k \<and> q \<noteq> PgAdvisoryUnlock k"
  obtain f w1 where c: "call cx (Stmt q) w = (f, w1)" by (cases "call cx (Stmt q) w")
  from call_result [OF c] have a1: "advisory w1 = advisory w" by simp
  show ?thesis
  proof (cases f)
    case (Some e)
    with a c a1 show ?thesis by (simp add: conn_ExecContext_def)
  next
    case None
    with a c have "pg_exec c q w1 = Some (r, w')" by (simp add: conn_ExecContext_def)
    from pg_exec_tables_only [OF this b] a1 show ?thesis by simp
  qed
qed

lemma Version_advisory:
  "Version p w = Some (r, w') \<Longrightarrow> advisory w' = advisory w"
proof -
  assume a: "Version p w = Some (r, w')"
  let ?q = "SelectVersionLimit1 (MigrationsTable (config p))"
  from a obtain x w1 where e: "conn_ExecContext (conn p) Background ?q w = Some (x, w1)"
    by (auto simp: Version_def conn_QueryRowContext_def conn_QueryContext_def
        split: option.splits)
  from conn_ExecContext_tables_only [OF e] have a1: "advisory w1 = advisory w" by simp
  from a e have "w' = w1"
    by (auto simp: Version_def conn_QueryRowContext_def conn_QueryContext_def
        split: option.splits sum.splits list.splits prod.splits error.splits if_splits)
  with a1 show ?thesis by simp
qed

lemma drop_each_advisory:
  "drop_each c ts w = Some (r, w') \<Longrightarrow> advisory w' = advisory w"
proof (induction ts arbitrary: w)
  case Nil
  then show ?case by simp
next
  case (Cons t ts)
  from Cons.prems obtain x w1 where
    e: "conn_ExecContext c Background (DropTableIfExistsCascade t) w = Some (x, w1)"
    by (auto split: option.splits)
  from conn_ExecContext_tables_only [OF e] have a1: "advisory w1 = advisory w" by simp
  show ?case
  proof (cases x)
    case (Inl err)
    with Cons.prems e a1 show ?thesis by simp
  next
    case (Inr res)
    with Cons.prems e have "drop_each c ts w1 = Some (r, w')" by simp
    from Cons.IH [OF this] a1 show ?thesis by simp
  qed
qed

lemma close_rows_advisory: "close_rows e w = (r, w') \<Longrightarrow> advisory w' = advisory w"
  by (auto simp: close_rows_def rows_Close_def dest!: call_result split: prod.splits option.splits)

lemma Drop_advisory:
  "Drop p w = Some (r, w') \<Longrightarrow> advisory w' = advisory w"
proof -
  assume a: "Drop p w = Some (r, w')"
  from a obtain x w1 where
    e: "conn_ExecContext (conn p) Background SelectBaseTables w = Some (x, w1)"
    by (auto simp: Drop_def conn_QueryContext_def split: option.splits)
  from conn_ExecContext_tables_only [OF e] have a1: "advisory w1 = advisory w" by simp
  show ?thesis
  proof (cases x)
    case (Inl err)
    with a e a1 show ?thesis by (simp add: Drop_def conn_QueryContext_def)
  next
    case (Inr rows)
    show ?thesis
    proof (cases "scan_tableNames rows []")
      case (Inl err)
      with a e Inr have "close_rows (Some err) w1 = (r, w')"
        by (simp add: Drop_def conn_QueryContext_def)
      from close_rows_advisory [OF this] a1 show ?thesis by simp
    next
      case names: (Inr tableNames)
      with a e Inr obtain err w2 where
        d: "drop_each (conn p) tableNames w1 = Some (err, w2)" and
        c: "close_rows err w2 = (r, w')"
        by (auto simp: Drop_def conn_QueryContext_def split: option.splits)
      from drop_each_advisory [OF d] close_rows_advisory [OF c] a1 show ?thesis by simp
    qed
  qed
qed


lemma holds_lock_advisory:
  "holds_lock gen q w \<Longrightarrow> advisory w' = advisory w \<Longrightarrow> holds_lock gen q w'"
  by (auto simp: holds_lock_def split: sum.splits option.splits)

lemma driver_call_result:
  assumes "driver_call gen c p w = (p', w')"
  shows "conn p' = conn p \<and> config p' = config p \<and> others_kept (conn p) w w' \<and>
         (flag_sound gen p w \<longrightarrow> flag_sound gen p' w')"
proof (cases c)
  case OpLock
  show ?thesis
  proof (cases "Lock gen p w")
    case None
    with OpLock assms show ?thesis by simp
  next
    case (Some x)
    obtain r p1 w1 where x: "x = (r, p1, w1)" by (cases x)
    with Some OpLock assms have l: "Lock gen p w = Some (r, p', w')" by simp
    from Lock_result [OF l] show ?thesis
      by (cases "r = None") (auto simp: flag_sound_def intro: holds_lock_advisory)
  qed
next
  case OpUnlock
  show ?thesis
  proof (cases "Unlock gen p w")
    case None
    with OpUnlock assms show ?thesis by simp
  next
    case (Some x)
    obtain r p1 w1 where x: "x = (r, p1, w1)" by (cases x)
    with Some OpUnlock assms have l: "Unlock gen p w = Some (r, p', w')" by simp
    from Unlock_result [OF l] show ?thesis
      by (cases "isLocked p \<and> r = None") (auto simp: flag_sound_def intro: holds_lock_advisory)
  qed
next
  case (OpSetVersion v b)
  from SetVersion_outcome [of p v b w] obtain err w1 where
    s: "SetVersion p v b w = Some (err, w1)" and a: "advisory w1 = advisory w" by blast
  with OpSetVersion assms have "p' = p" "w' = w1" by simp_all
  with a show ?thesis
    by (auto simp: flag_sound_def others_kept_advisory intro: holds_lock_advisory)
next
  case OpVersion
  show ?thesis
  proof (cases "Version p w")
    case None
    with OpVersion assms show ?thesis by simp
  next
    case (Some x)
    obtain r w1 where x: "x = (r, w1)" by (cases x)
    with Some OpVersion assms have e: "p' = p" "w' = w1" by simp_all
    from Some x Version_advisory have "advisory w1 = advisory w" by simp
    with e show ?thesis
      by (auto simp: flag_sound_def others_kept_advisory intro: holds_lock_advisory)
  qed
next
  case OpDrop
  show ?thesis
  proof (cases "Drop p w")
    case None
    with OpDrop assms show ?thesis by simp
  next
    case (Some x)
    obtain r w1 where x: "x = (r, w1)" by (cases x)
    with Some OpDrop assms have e: "p' = p" "w' = w1" by simp_all
    from Some x Drop_advisory have "advisory w1 = advisory w" by simp
    with e show ?thesis
      by (auto simp: flag_sound_def others_kept_advisory intro: holds_lock_advisory)
  qed
qed






section \<open>Contexts of the calls, and Open\<close>

lemma pg_exec_sent: "pg_exec c q w = Some (r, w') \<Longrightarrow> sent w' = sent w \<and> faults w' = faults w"
  by (cases q) (auto split: option.splits if_splits)

lemma call_bg: "call Background r w = (f, w') \<Longrightarrow> all_background w \<Longrightarrow> all_background w'"
  by (auto simp: all_background_def dest!: call_result)

lemma conn_ExecContext_sent:
  assumes "conn_ExecContext c cx q w = Some (r, w')"
  shows "sent w' = sent w @ [(cx, Stmt q)]"
proof -
  obtain f w1 where c: "call cx (Stmt q) w = (f, w1)" by (cases "call cx (Stmt q) w")
  from call_result [OF c] have s: "sent w1 = sent w @ [(cx, Stmt q)]" by simp
  show ?thesis
  proof (cases f)
    case (Some e)
    with assms c s show ?thesis by (auto simp: conn_ExecContext_def)
  next
    case None
    with assms c have "pg_exec c q w1 = Some (r, w')"
      by (simp add: conn_ExecContext_def del: pg_exec.simps)
    from pg_exec_sent [OF this] s show ?thesis by simp
  qed
qed

lemma conn_ExecContext_bg:
  "conn_ExecContext c Background q w = Some (r, w') \<Longrightarrow> all_background w \<Longrightarrow> all_background w'"
  by (auto simp: all_background_def dest!: conn_ExecContext_sent)

lemma conn_QueryRowContext_bg:
  "conn_QueryRowContext c Background q w = Some (r, w') \<Longrightarrow> all_background w \<Longrightarrow>
   all_background w'"
  by (auto simp: conn_QueryRowContext_def conn_QueryContext_def
      split: option.splits sum.splits list.splits prod.splits dest: conn_ExecContext_bg)

lemma conn_BeginTx_bg:
  "conn_BeginTx c Background w = (r, w') \<Longrightarrow> all_background w \<Longrightarrow> all_background w'"
  by (auto simp: conn_BeginTx_def split: prod.splits option.splits dest: call_bg)

lemma tx_Exec_bg:
  assumes "tx_Exec tx q w = Some (r, tx', w')" and "all_background w"
  shows "all_background w'"
proof -
  obtain f w1 where c: "call Background (Stmt q) w = (f, w1)"
    by (cases "call Background (Stmt q) w")
  from call_bg [OF c assms(2)] have b: "all_background w1" .
  show ?thesis
  proof (cases f)
    case (Some e)
    with assms c b show ?thesis by (auto simp: tx_Exec_def)
  next
    case None
    with assms c obtain w2 where
      e: "pg_exec (tx_conn tx) q (w1\<lparr>tables := tx_tables tx\<rparr>) = Some (r, w2)" and
      w': "w' = w2\<lparr>tables := tables w1\<rparr>"
      by (auto simp: tx_Exec_def simp del: pg_exec.simps split: option.splits)
    from pg_exec_sent [OF e] b w' show ?thesis by (simp add: all_background_def)
  qed
qed

lemma tx_Commit_bg:
  "tx_Commit tx w = (r, w') \<Longrightarrow> all_background w \<Longrightarrow> all_background w'"
proof -
  assume a: "tx_Commit tx w = (r, w')" and b: "all_background w"
  obtain f w1 where c: "call Background Commit w = (f, w1)" by (cases "call Background Commit w")
  from call_bg [OF c b] have "all_background w1" .
  with a c show ?thesis by (cases f) (auto simp: tx_Commit_def all_background_def)
qed

lemma rollback_with_bg:
  "rollback_with err tx w = (e, w') \<Longrightarrow> all_background w \<Longrightarrow> all_background w'"
  by (auto simp: rollback_with_def tx_Rollback_def split: prod.splits option.splits dest: call_bg)

lemma SetVersion_bg:
  assumes "SetVersion p version dirty w = Some (r, w')" and "all_background w"
  shows "all_background w'"
  using assms
  by (auto simp: SetVersion_def
      split: prod.splits sum.splits option.splits if_splits
      dest!: conn_BeginTx_bg tx_Exec_bg rollback_with_bg tx_Commit_bg)


lemma Version_bg:
  assumes "Version p w = Some (r, w')" and "all_background w"
  shows "all_background w'"
proof -
  from assms(1) obtain x where
    "conn_QueryRowContext (conn p) Background
       (SelectVersionLimit1 (MigrationsTable (config p))) w = Some (x, w')"
    by (auto simp: Version_def split: option.splits sum.splits error.splits if_splits prod.splits)
  from conn_QueryRowContext_bg [OF this assms(2)] show ?thesis .
qed

lemma drop_each_bg:
  "drop_each c ts w = Some (r, w') \<Longrightarrow> all_background w \<Longrightarrow> all_background w'"
proof (induction ts arbitrary: w)
  case Nil
  then show ?case by simp
next
  case (Cons t ts)
  from Cons.prems(1) obtain x w1 where
    e: "conn_ExecContext c Background (DropTableIfExistsCascade t) w = Some (x, w1)"
    by (auto split: option.splits)
  from conn_ExecContext_bg [OF e Cons.prems(2)] have b: "all_background w1" .
  show ?case
  proof (cases x)
    case (Inl err)
    with Cons.prems(1) e b show ?thesis by simp
  next
    case (Inr res)
    with Cons.prems(1) e have "drop_each c ts w1 = Some (r, w')" by simp
    from Cons.IH [OF this b] show ?thesis .
  qed
qed

lemma close_rows_bg: "close_rows e w = (r, w') \<Longrightarrow> all_background w \<Longrightarrow> all_background w'"
  by (auto simp: close_rows_def rows_Close_def split: prod.splits option.splits dest: call_bg)

lemma Drop_bg:
  assumes "Drop p w = Some (r, w')" and "all_background w"
  shows "all_background w'"
  using assms
  by (auto simp: Drop_def conn_QueryContext_def
      split: option.splits sum.splits prod.splits
      dest!: conn_ExecContext_bg drop_each_bg close_rows_bg)

lemma Lock_bg:
  assumes "Lock gen p w = Some (r, p', w')" and "all_background w"
  shows "all_background w'"
  using assms
  by (auto simp: Lock_def split: if_splits option.splits sum.splits prod.splits
      dest!: conn_ExecContext_bg)

lemma Unlock_bg:
  assumes "Unlock gen p w = Some (r, p', w')" and "all_background w"
  shows "all_background w'"
  using assms
  by (auto simp: Unlock_def split: if_splits option.splits sum.splits prod.splits
      dest!: conn_ExecContext_bg)

lemma driver_call_bg:
  assumes "driver_call gen c p w = (p', w')" and "all_background w"
  shows "all_background w'"
  using assms
  by (cases c)
     (auto split: option.splits prod.splits dest: Lock_bg Unlock_bg SetVersion_bg Version_bg Drop_bg)

lemma calls_bg:
  "calls gen cs p w = (p', w') \<Longrightarrow> all_background w \<Longrightarrow> all_background w'"
proof (induction cs arbitrary: p w)
  case Nil
  then show ?case by simp
next
  case (Cons c cs)
  obtain p1 w1 where d: "driver_call gen c p w = (p1, w1)" by (cases "driver_call gen c p w")
  from driver_call_bg [OF d Cons.prems(2)] have b: "all_background w1" .
  from Cons.prems(1) d have "calls gen cs p1 w1 = (p', w')" by simp
  from Cons.IH [OF this b] show ?case .
qed

lemma calls_config:
  "calls gen cs p w = (p', w') \<Longrightarrow> config p' = config p"
proof (induction cs arbitrary: p w)
  case Nil
  then show ?case by simp
next
  case (Cons c cs)
  obtain p1 w1 where d: "driver_call gen c p w = (p1, w1)" by (cases "driver_call gen c p w")
  from driver_call_result [OF d] have c1: "config p1 = config p" by simp
  from Cons.prems d have "calls gen cs p1 w1 = (p', w')" by simp
  from Cons.IH [OF this] c1 show ?case by simp
qed

lemma ensureVersionTable_bg:
  assumes "ensureVersionTable gen p w = Some (r, p', w')" and "all_background w"
  shows "all_background w'"
proof -
  from assms(1) obtain p1 w1 r1 where l: "Lock gen p w = Some (r1, p1, w1)"
    by (auto simp: ensureVersionTable_def split: option.splits)
  from Lock_bg [OF l assms(2)] have b1: "all_background w1" .
  show ?thesis
  proof (cases r1)
    case (Some e)
    with assms(1) l b1 show ?thesis by (simp add: ensureVersionTable_def)
  next
    case None
    with assms(1) l obtain x w2 r3 where
      c: "conn_ExecContext (conn p1) Background
            (CreateTableIfNotExists (MigrationsTable (config p1))) w1 = Some (x, w2)" and
      u: "Unlock gen p1 w2 = Some (r3, p', w')"
      by (auto simp: ensureVersionTable_def Let_def split: option.splits prod.splits)
    from conn_ExecContext_bg [OF c b1] have "all_background w2" .
    from Unlock_bg [OF u this] show ?thesis .
  qed
qed


lemma db_Ping_bg: "db_Ping w = (r, w') \<Longrightarrow> all_background w \<Longrightarrow> all_background w'"
  by (auto simp: db_Ping_def dest: call_bg)

lemma sql_Open_bg: "sql_Open dsn w = (r, w') \<Longrightarrow> all_background w \<Longrightarrow> all_background w'"
  by (auto simp: sql_Open_def dest: call_bg)

lemma db_Conn_bg: "db_Conn Background w = (r, w') \<Longrightarrow> all_background w \<Longrightarrow> all_background w'"
proof -
  assume a: "db_Conn Background w = (r, w')" and b: "all_background w"
  obtain f w1 where c: "call Background DbConn w = (f, w1)" by (cases "call Background DbConn w")
  from call_bg [OF c b] have "all_background w1" .
  with a c show ?thesis by (cases f) (auto simp: db_Conn_def all_background_def)
qed

lemma db_QueryRow_string_bg:
  "db_QueryRow_string q w = Some (r, w') \<Longrightarrow> all_background w \<Longrightarrow> all_background w'"
  by (auto simp: db_QueryRow_string_def split: option.splits sum.splits prod.splits
      dest: conn_QueryRowContext_bg)


lemma WithInstance_success:
  assumes "WithInstance gen cfg w = Some (Inr px, w')"
  obtains c0 cn c3 w4 where "cfg = Some c0"
    and "ensureVersionTable gen \<lparr>conn = cn, isLocked = False, config = c3\<rparr> w4
           = Some (None, px, w')"
    and "MigrationsTable c3 \<noteq> []" and "StatementTimeout c3 = StatementTimeout c0"
  using assms
  by (auto simp: WithInstance_def Let_def DefaultMigrationsTable_def
      split: option.splits sum.splits prod.splits if_splits)

lemma WithInstance_bg:
  assumes "WithInstance gen cfg w = Some (r, w')" and "all_background w"
  shows "all_background w'"
  using assms
  by (auto simp: WithInstance_def Let_def
      split: option.splits sum.splits prod.splits if_splits
      dest!: db_Ping_bg db_QueryRow_string_bg db_Conn_bg ensureVersionTable_bg)

lemma map_of_create_table: "map_of (create_table t ts) t \<noteq> None"
  by (cases "map_of ts t") (auto simp: create_table_def)

lemma conn_ExecContext_create:
  assumes "conn_ExecContext c cx (CreateTableIfNotExists t) w = Some (Inr x, w')"
  shows "map_of (tables w') t \<noteq> None"
proof -
  from conn_ExecContext_cases [OF assms] obtain w1 where
    "pg_exec c (CreateTableIfNotExists t) w1 = Some (Inr x, w')" by auto
  then have "tables w' = create_table t (tables w1)" by auto
  then show ?thesis by (simp add: map_of_create_table)
qed

lemma conn_ExecContext_locks_tables:
  assumes "conn_ExecContext c cx q w = Some (r, w')"
    and "q = PgAdvisoryLock k \<or> q = PgAdvisoryUnlock k"
  shows "tables w' = tables w"
proof -
  from conn_ExecContext_cases [OF assms(1)] show ?thesis
  proof
    assume "\<exists>e. r = Inl e \<and> same_data w w'"
    then show ?thesis by (auto simp: same_data_def)
  next
    assume "\<exists>w1. same_data w w1 \<and> pg_exec c q w1 = Some (r, w')"
    then obtain w1 where d: "same_data w w1" and e: "pg_exec c q w1 = Some (r, w')" by blast
    from e assms(2) have "tables w' = tables w1"
      by (auto split: option.splits if_splits)
    with d show ?thesis by (simp add: same_data_def)
  qed
qed

lemma Unlock_returns: "\<exists>r p' w'. Unlock gen p w = Some (r, p', w')"
  by (auto simp: Unlock_def conn_ExecContext_def
      split: sum.splits option.splits prod.splits if_splits)

lemma ensureVersionTable_success:
  assumes "ensureVersionTable gen p w = Some (None, p', w')" and "\<not> isLocked p"
  shows "conn p' = conn p \<and> config p' = config p \<and> \<not> isLocked p' \<and>
         map_of (tables w') (MigrationsTable (config p)) \<noteq> None \<and>
         (\<exists>aid. gen (DatabaseName (config p)) (SchemaName (config p)) = Inr aid \<and>
            sent w' = sent w @
              [(Background, Stmt (PgAdvisoryLock aid)),
               (Background, Stmt (CreateTableIfNotExists (MigrationsTable (config p)))),
               (Background, Stmt (PgAdvisoryUnlock aid))])"
proof -
  let ?t = "MigrationsTable (config p)"
  from assms(1) obtain p1 w1 where l: "Lock gen p w = Some (None, p1, w1)"
    by (auto simp: ensureVersionTable_def split: option.splits)
  from Lock_result [OF l] obtain aid res where
    p1: "conn p1 = conn p" "config p1 = config p" "isLocked p1" and
    g: "gen (DatabaseName (config p)) (SchemaName (config p)) = Inr aid" and
    e1: "conn_ExecContext (conn p) Background (PgAdvisoryLock aid) w = Some (Inr res, w1)"
    by auto
  from assms(1) l p1 obtain x w2 where
    c: "conn_ExecContext (conn p) Background (CreateTableIfNotExists ?t) w1 = Some (Inr x, w2)"
    and u: "Unlock gen p1 w2 = Some (None, p', w')"
    by (auto simp: ensureVersionTable_def Let_def
        split: option.splits sum.splits prod.splits)
  from Unlock_result [OF u] p1 g obtain res' where
    p': "conn p' = conn p" "config p' = config p" "\<not> isLocked p'" and
    e3: "conn_ExecContext (conn p) Background (PgAdvisoryUnlock aid) w2 = Some (Inr res', w')"
    by auto
  from conn_ExecContext_create [OF c] have "map_of (tables w2) ?t \<noteq> None" .
  moreover from conn_ExecContext_locks_tables [OF e3] have "tables w' = tables w2" by simp
  ultimately have t: "map_of (tables w') ?t \<noteq> None" by simp
  from conn_ExecContext_sent [OF e1] conn_ExecContext_sent [OF c] conn_ExecContext_sent [OF e3]
  have "sent w' = sent w @
              [(Background, Stmt (PgAdvisoryLock aid)),
               (Background, Stmt (CreateTableIfNotExists ?t)),
               (Background, Stmt (PgAdvisoryUnlock aid))]" by simp
  with p' t g show ?thesis by simp
qed

lemma ensureVersionTable_create_fails:
  assumes "Lock gen p w = Some (None, p1, w1)" and "faults w1 = Some e # fs"
  shows "\<exists>err p2 w2. ensureVersionTable gen p w = Some (Some err, p2, w2)"
proof -
  let ?q = "CreateTableIfNotExists (MigrationsTable (config p1))"
  from assms(2) have
    c: "conn_ExecContext (conn p1) Background ?q w1
          = Some (Inl e, w1\<lparr>faults := fs, sent := sent w1 @ [(Background, Stmt ?q)]\<rparr>)"
    by (simp add: conn_ExecContext_def call_def)
  from Unlock_returns obtain r p2 w2 where
    u: "Unlock gen p1 (w1\<lparr>faults := fs, sent := sent w1 @ [(Background, Stmt ?q)]\<rparr>)
          = Some (r, p2, w2)" by blast
  from assms(1) c u show ?thesis
    by (cases r) (simp_all add: ensureVersionTable_def)
qed

lemma WithInstance_ping_fails:
  assumes "faults w = Some e # fs"
  shows "WithInstance gen (Some c) w
           = Some (Inl e, w\<lparr>faults := fs, sent := sent w @ [(Background, Ping)]\<rparr>)"
  using assms by (simp add: WithInstance_def db_Ping_def call_def)

lemma Open_success:
  assumes "Open nurl_Parse gen url w = Some (Inr px, w')"
  obtains purl w1 n where "nurl_Parse url = Inr purl"
    and "WithInstance gen
           (Some \<lparr>MigrationsTable = Get (Query purl) ''x-migrations-table'',
                  DatabaseName = Path purl, SchemaName = [],
                  StatementTimeout = n * Millisecond\<rparr>) w1 = Some (Inr px, w')"
    and "(if Get (Query purl) ''x-statement-timeout'' \<noteq> []
          then Atoi (Get (Query purl) ''x-statement-timeout'') else (0, None)) = (n, None)"
  using assms
  by (auto simp: Open_def Let_def split: sum.splits prod.splits option.splits if_splits)

lemma WithInstance_table:
  assumes "WithInstance gen cfg w = Some (Inr px, w')"
  shows "MigrationsTable (config px) \<noteq> [] \<and>
         map_of (tables w') (MigrationsTable (config px)) \<noteq> None \<and> \<not> isLocked px \<and>
         (\<exists>aid pre. gen (DatabaseName (config px)) (SchemaName (config px)) = Inr aid \<and>
            sent w' = pre @
              [(Background, Stmt (PgAdvisoryLock aid)),
               (Background, Stmt (CreateTableIfNotExists (MigrationsTable (config px)))),
               (Background, Stmt (PgAdvisoryUnlock aid))]) \<and>
         (\<exists>v d. observed px w' = Some (v, d, None))"
proof -
  from assms obtain c0 cn c3 w4 where
    e: "ensureVersionTable gen \<lparr>conn = cn, isLocked = False, config = c3\<rparr> w4
          = Some (None, px, w')" and m: "MigrationsTable c3 \<noteq> []"
    by (rule WithInstance_success)
  from ensureVersionTable_success [OF e] obtain aid where
    c: "config px = c3" and l: "\<not> isLocked px" and
    t: "map_of (tables w') (MigrationsTable c3) \<noteq> None" and
    g: "gen (DatabaseName c3) (SchemaName c3) = Inr aid" and
    s: "sent w' = sent w4 @
              [(Background, Stmt (PgAdvisoryLock aid)),
               (Background, Stmt (CreateTableIfNotExists (MigrationsTable c3))),
               (Background, Stmt (PgAdvisoryUnlock aid))]"
    by auto
  from t c have "\<exists>v d. observed px w' = Some (v, d, None)"
    by (auto simp: observed_eq split: list.splits)
  with c l t g s m show ?thesis by auto
qed

lemma Atoi_5: "Atoi ''5'' = (5, None)"
  by (simp add: Atoi_def strip_sign_def is_digit_def digits_value_def)

lemma demo_Open:
  "Open demo_parse demo_gen url (demo_world\<lparr>tables := [(''users'', [])]\<rparr>)
     = Some (Inr demo_opened,
             demo_world
               \<lparr>tables := [(''users'', []), (''schema_migrations'', [])],
                next_conn := 4,
                sent := [(Background, SqlOpen []), (Background, Ping),
                         (Background, Stmt SelectCurrentSchema), (Background, DbConn),
                         (Background, Stmt (PgAdvisoryLock ''public//app'')),
                         (Background, Stmt (CreateTableIfNotExists ''schema_migrations'')),
                         (Background, Stmt (PgAdvisoryUnlock ''public//app''))]\<rparr>)"
  by (simp add: Open_def WithInstance_def ensureVersionTable_def db_QueryRow_string_def
      sql_Open_def db_Ping_def db_Conn_def Get_def Atoi_5 pg_defs demo_defs demo_parse_def
      demo_opened_def Let_def)

lemma demo_dyn_Open:
  "dyn_Open demo_parse (\<lambda>s. Inr 0) url empty_dynamo = (Inr demo_dyn_shell, empty_dynamo)"
  by (simp add: dyn_Open_def session_NewSession_def ddb_call_def Get_def demo_parse_def
      demo_defs Let_def)


lemma demo_calls:
  "calls demo_gen [OpSetVersion 1 False, OpVersion, OpDrop] demo_opened demo_world
     = (demo_opened,
        demo_world
          \<lparr>tables := [],
           sent := [(Background, Begin),
                    (Background, Stmt (Truncate ''schema_migrations'')),
                    (Background, Stmt (InsertVersion ''schema_migrations'' 1 False)),
                    (Background, Commit),
                    (Background, Stmt (SelectVersionLimit1 ''schema_migrations'')),
                    (Background, Stmt SelectBaseTables),
                    (Background, Stmt (DropTableIfExistsCascade ''users'')),
                    (Background, Stmt (DropTableIfExistsCascade ''schema_migrations'')),
                    (Background, RowsClose)]\<rparr>)"
  by (simp add: pg_defs demo_defs demo_opened_def)

section \<open>The claims\<close>

text \<open>
  Claim C1. For every \<open>(version, dirty)\<close> with \<open>version \<ge> -1\<close>: on a backend where the
  version table exists and no failure is injected, \<open>SetVersion(version, dirty)\<close> returns no
  error and the \<open>Version()\<close> that follows returns exactly \<open>(version, dirty)\<close> with no error.
  The witness is the pair \<open>(-1, true)\<close>, which is read back as \<open>(-1, true)\<close>.
\<close>

theorem SetVersion_then_Version:
  assumes "- 1 \<le> sint version"
    and "faults w = []"
    and "map_of (tables w) (MigrationsTable (config p)) \<noteq> None"
  shows "\<exists>w1 w2. SetVersion p version dirty w = Some (None, w1) \<and>
                 Version p w1 = Some ((version, dirty, None), w2)"
proof -
  let ?t = "MigrationsTable (config p)"
  from assms(3) obtain rs where rs: "map_of (tables w) ?t = Some rs" by blast
  define w1 where "w1 = snd (the (SetVersion p version dirty w))"
  from SetVersion_nofault [OF assms(2) rs, of version dirty]
  have s: "SetVersion p version dirty w = Some (None, w1)"
    and f: "faults w1 = []"
    and t: "tables w1 = set_rows ?t (stored_rows version dirty) (tables w)"
    by (simp_all add: w1_def assms(2))
  from t rs have "map_of (tables w1) ?t = Some (stored_rows version dirty)"
    by (simp add: map_of_set_rows)
  from Version_nofault_rows [OF f this] assms(1)
  have "\<exists>w2. Version p w1 = Some ((version, dirty, None), w2)"
    by (simp add: stored_rows_read)
  with s show ?thesis by blast
qed

theorem SetVersion_then_Version_witness:
  "- 1 \<le> sint (- 1 :: goint) \<and> faults demo_world = [] \<and>
   map_of (tables demo_world) (MigrationsTable (config (demo_shell 1))) \<noteq> None \<and>
   (\<exists>w1 w2. SetVersion (demo_shell 1) (- 1) True demo_world = Some (None, w1) \<and>
            Version (demo_shell 1) w1 = Some ((- 1, True, None), w2))"
  using SetVersion_then_Version [of "- 1" demo_world "demo_shell 1" True]
  by (simp add: demo_world_def demo_shell_def demo_config_def)

text \<open>
  Claim C3. \<open>SetVersion\<close> is atomic, for every version and flag, whatever failures the
  backend injects and at whatever statement. The call returns. Either it returns no error,
  and then the whole write is in place: the version table holds exactly the rows of the new
  pair, which for a version in the domain of the record (\<open>-1\<close> and up) a reader gets back as
  \<open>(version, dirty)\<close>. Or it returns an error, and then the tables are the ones before the
  call and a reader sees what it saw before. A table that was truncated and never got its
  row is seen in neither case.
\<close>

theorem SetVersion_atomic:
  "\<exists>err w'. SetVersion p version dirty w = Some (err, w') \<and>
     ((err = None \<and>
       map_of (tables w') (MigrationsTable (config p)) = Some (stored_rows version dirty) \<and>
       (- 1 \<le> sint version \<longrightarrow> observed p w' = Some (version, dirty, None)))
      \<or> (err \<noteq> None \<and> tables w' = tables w \<and> observed p w' = observed p w))"
proof -
  obtain err w' where s: "SetVersion p version dirty w = Some (err, w')"
    and k: "(err = None \<and> map_of (tables w) (MigrationsTable (config p)) \<noteq> None \<and>
             tables w' = set_rows (MigrationsTable (config p)) (stored_rows version dirty) (tables w))
            \<or> (err \<noteq> None \<and> tables w' = tables w)"
    using SetVersion_outcome [of p version dirty w] by blast
  from k show ?thesis
  proof
    assume a: "err = None \<and> map_of (tables w) (MigrationsTable (config p)) \<noteq> None \<and>
             tables w' = set_rows (MigrationsTable (config p)) (stored_rows version dirty) (tables w)"
    then have m: "map_of (tables w') (MigrationsTable (config p)) = Some (stored_rows version dirty)"
      by (auto simp: map_of_set_rows)
    then have "- 1 \<le> sint version \<longrightarrow> observed p w' = Some (version, dirty, None)"
      by (simp add: observed_eq stored_rows_read)
    with s a m show ?thesis by blast
  next
    assume a: "err \<noteq> None \<and> tables w' = tables w"
    then have "observed p w' = observed p w" by (simp add: observed_eq)
    with s a show ?thesis by blast
  qed
qed

theorem SetVersion_atomic_witness:
  "SetVersion (demo_shell 1) 7 True
     (demo_world\<lparr>faults := [None, None, Some (DriverError ''connection reset'')]\<rparr>)
     = Some (Some (DatabaseError (DriverError ''connection reset'') []
                     (Some (InsertVersion ''schema_migrations'' 7 True))),
             demo_world\<lparr>sent := [(Background, Begin),
                                 (Background, Stmt (Truncate ''schema_migrations'')),
                                 (Background, Stmt (InsertVersion ''schema_migrations'' 7 True)),
                                 (Background, Rollback)]\<rparr>) \<and>
   - 1 \<le> sint (7 :: goint) \<and>
   (\<exists>w'. SetVersion (demo_shell 1) 7 True demo_world = Some (None, w') \<and>
         observed (demo_shell 1) w' = Some (7, True, None))"
proof -
  have f: "SetVersion (demo_shell 1) 7 True
     (demo_world\<lparr>faults := [None, None, Some (DriverError ''connection reset'')]\<rparr>)
     = Some (Some (DatabaseError (DriverError ''connection reset'') []
                     (Some (InsertVersion ''schema_migrations'' 7 True))),
             demo_world\<lparr>sent := [(Background, Begin),
                                 (Background, Stmt (Truncate ''schema_migrations'')),
                                 (Background, Stmt (InsertVersion ''schema_migrations'' 7 True)),
                                 (Background, Rollback)]\<rparr>)"
    by (simp add: pg_defs demo_defs)
  have n: "\<exists>w'. SetVersion (demo_shell 1) 7 True demo_world = Some (None, w')"
    by (simp add: pg_defs demo_defs)
  have v: "- 1 \<le> sint (7 :: goint)" by simp
  from SetVersion_atomic [of "demo_shell 1" 7 True demo_world] n v
  have "\<exists>w'. SetVersion (demo_shell 1) 7 True demo_world = Some (None, w') \<and>
         observed (demo_shell 1) w' = Some (7, True, None)"
    by auto
  with f v show ?thesis by (intro conjI)
qed

text \<open>
  Claim C2, as amended. \<open>Version()\<close> returns \<open>(-1, false)\<close> with no error when no failure
  is injected and the store holds no record. In the relational driver that is a version
  table without a row, a version table that does not exist (the server's
  \<open>undefined_table\<close> is read as the empty state), and any backend after a \<open>Drop()\<close>, which
  removes the version table with the others. In the key-value driver that is an existing
  table without the item.
\<close>

theorem Version_of_empty_store:
  assumes "faults w = []"
    and "map_of (tables w) (MigrationsTable (config p)) = None \<or>
         map_of (tables w) (MigrationsTable (config p)) = Some []"
    and "faults w0 = []"
    and "MigrationsTable (config p) \<noteq> []"
    and "ddb_faults d = []"
    and "map_of (ddb_tables d) (dyn_MigrationsTable (dyn_config s)) = Some items"
    and "map_of items ''LatestMigrationVersion'' = None"
  shows "(\<exists>w'. Version p w = Some ((- 1, False, None), w')) \<and>
         (\<exists>w1 w2. Drop p w0 = Some (None, w1) \<and> Version p w1 = Some ((- 1, False, None), w2)) \<and>
         fst (dyn_Version s d) = (- 1, False, None)"
proof -
  from assms(1,2) have a: "\<exists>w'. Version p w = Some ((- 1, False, None), w')"
    by (auto simp: Version_nofault_absent Version_nofault_rows NilVersion_def)
  from Drop_nofault [OF assms(3), of p] obtain w1 where
    d: "Drop p w0 = Some (None, w1)" and f: "faults w1 = []"
    and t: "\<forall>t. t \<noteq> [] \<longrightarrow> map_of (tables w1) t = None" by blast
  from t assms(4) have "map_of (tables w1) (MigrationsTable (config p)) = None" by simp
  from Version_nofault_absent [OF f this] d
  have b: "\<exists>w1 w2. Drop p w0 = Some (None, w1) \<and> Version p w1 = Some ((- 1, False, None), w2)"
    by (simp add: NilVersion_def)
  from dyn_Version_no_item [OF assms(5,6,7)] have "fst (dyn_Version s d) = (- 1, False, None)"
    by simp
  with a b show ?thesis by blast
qed

theorem Version_of_empty_store_witness:
  "faults demo_world = [] \<and>
   (map_of (tables demo_world) (MigrationsTable (config (demo_shell 1))) = None \<or>
    map_of (tables demo_world) (MigrationsTable (config (demo_shell 1))) = Some []) \<and>
   faults (demo_world\<lparr>tables := [(''users'', []), (''schema_migrations'', [(3, False)])]\<rparr>) = [] \<and>
   MigrationsTable (config (demo_shell 1)) \<noteq> [] \<and>
   ddb_faults demo_dynamo = [] \<and>
   map_of (ddb_tables demo_dynamo) (dyn_MigrationsTable (dyn_config demo_dyn_shell)) = Some [] \<and>
   map_of ([] :: (string \<times> item) list) ''LatestMigrationVersion'' = None \<and>
   (\<exists>w'. Version (demo_shell 1) demo_world = Some ((- 1, False, None), w')) \<and>
   (\<exists>w1 w2. Drop (demo_shell 1)
               (demo_world\<lparr>tables := [(''users'', []), (''schema_migrations'', [(3, False)])]\<rparr>)
               = Some (None, w1) \<and>
            Version (demo_shell 1) w1 = Some ((- 1, False, None), w2)) \<and>
   fst (dyn_Version demo_dyn_shell demo_dynamo) = (- 1, False, None)"
  using Version_of_empty_store [of demo_world "demo_shell 1"
      "demo_world\<lparr>tables := [(''users'', []), (''schema_migrations'', [(3, False)])]\<rparr>"
      demo_dynamo demo_dyn_shell "[]"]
  by (simp add: demo_world_def demo_shell_def demo_config_def demo_dynamo_def demo_dyn_shell_def)

text \<open>
  The claim as stated fails in the key-value driver: \<open>GetItem\<close> on a table that does not
  exist fails, and \<open>Version\<close> returns that error with \<open>(0, false)\<close>.
\<close>

theorem dyn_Version_missing_table_counterexample:
  "dyn_Version demo_dyn_shell empty_dynamo
     = ((0, False, Some (AwsError ''ResourceNotFoundException'')), empty_dynamo) \<and>
   fst (dyn_Version demo_dyn_shell empty_dynamo) \<noteq> (- 1, False, None)"
  by (simp add: dyn_Version_def GetItem_def ddb_call_def empty_dynamo_def demo_dyn_shell_def)

text \<open>
  Claim C4, as amended. The two drivers agree on what \<open>Version()\<close> returns after any
  sequence of \<open>SetVersion\<close> calls with versions from \<open>-1\<close> up: on backends where the store
  exists and no failure is injected, \<open>Version()\<close> returns the same in both after the
  sequence, whatever the stores held before; after the empty sequence it returns the same
  in both when it did before.
\<close>

theorem SetVersion_sequences_agree:
  assumes "\<forall>(v, b) \<in> set vds. - 1 \<le> sint v"
    and "faults w = []"
    and "map_of (tables w) (MigrationsTable (config p)) \<noteq> None"
    and "ddb_faults d = []"
    and "map_of (ddb_tables d) (dyn_MigrationsTable (dyn_config s)) \<noteq> None"
    and "vds \<noteq> [] \<or> map_option fst (Version p w) = Some (fst (dyn_Version s d))"
  shows "\<exists>w'. calls gen (map (\<lambda>(v, b). OpSetVersion v b) vds) p w = (p, w') \<and>
           map_option fst (Version p w')
             = Some (fst (dyn_Version s (dyn_calls (map (\<lambda>(v, b). OpSetVersion v b) vds) s d)))"
proof -
  let ?cs = "map (\<lambda>(v, b). OpSetVersion v b) vds"
  from assms(2,4,6) have "vds \<noteq> [] \<or> observed p w = Some (dyn_observed s d)"
    by (auto simp: observed_def dyn_observed_def faults_nil_same ddb_faults_nil_same)
  from SetVersion_sequence [OF assms(1-5) this, of gen] obtain w' where
    c: "calls gen ?cs p w = (p, w')" and f: "faults w' = []" and
    o: "observed p w' = Some (dyn_observed s (dyn_calls ?cs s d))" by blast
  have "ddb_faults (dyn_calls cs s d) = []" if "ddb_faults d = []" for cs d
    using that
  proof (induction cs arbitrary: d)
    case Nil
    then show ?case by simp
  next
    case (Cons c cs)
    have "ddb_faults (dyn_driver_call c s d) = []"
      using Cons.prems
      by (cases c)
         (auto simp: dyn_Lock_def dyn_Unlock_def dyn_Drop_def dyn_SetVersion_def dyn_Version_def
            PutItem_def GetItem_def ddb_call_def Let_def
          split: option.splits sum.splits prod.splits)
    from Cons.IH [OF this] show ?case by simp
  qed
  from this [OF assms(4)] have "ddb_faults (dyn_calls ?cs s d) = []" .
  with o f have "map_option fst (Version p w') = Some (fst (dyn_Version s (dyn_calls ?cs s d)))"
    by (simp add: observed_def dyn_observed_def faults_nil_same ddb_faults_nil_same)
  with c show ?thesis by blast
qed

theorem SetVersion_sequences_agree_witness:
  "- 1 \<le> sint (3 :: goint) \<and> - 1 \<le> sint (- 1 :: goint) \<and>
   faults demo_world = [] \<and>
   map_of (tables demo_world) (MigrationsTable (config (demo_shell 1))) \<noteq> None \<and>
   ddb_faults demo_dynamo = [] \<and>
   map_of (ddb_tables demo_dynamo) (dyn_MigrationsTable (dyn_config demo_dyn_shell)) \<noteq> None \<and>
   map_option fst (Version (demo_shell 1) demo_world)
     = Some (fst (dyn_Version demo_dyn_shell demo_dynamo)) \<and>
   (\<exists>w'. calls demo_gen [OpSetVersion 3 True, OpSetVersion (- 1) False] (demo_shell 1) demo_world
            = (demo_shell 1, w') \<and>
      map_option fst (Version (demo_shell 1) w')
        = Some (fst (dyn_Version demo_dyn_shell
                       (dyn_calls [OpSetVersion 3 True, OpSetVersion (- 1) False]
                          demo_dyn_shell demo_dynamo))))"
proof -
  have h: "map_option fst (Version (demo_shell 1) demo_world)
            = Some (fst (dyn_Version demo_dyn_shell demo_dynamo))"
    by (simp add: pg_defs dyn_defs demo_defs)
  from SetVersion_sequences_agree [of "[(3, True), (- 1, False)]" demo_world "demo_shell 1"
      demo_dynamo demo_dyn_shell demo_gen] h
  show ?thesis
    by (simp add: demo_defs)
qed

text \<open>
  The drivers do not agree on every operation of the interface. After \<open>SetVersion(3, false)\<close>
  and \<open>Drop()\<close> the relational driver reads \<open>(-1, false)\<close> and the key-value driver, whose
  \<open>Drop\<close> does nothing, reads \<open>(3, false)\<close>; a second \<open>Lock()\<close> fails with \<open>ErrLocked\<close> in the
  relational driver and succeeds in the key-value driver.
\<close>

theorem variants_disagree_counterexample:
  "observed (demo_shell 1)
     (snd (calls demo_gen [OpSetVersion 3 False, OpDrop] (demo_shell 1) demo_world))
     = Some (- 1, False, None) \<and>
   dyn_observed demo_dyn_shell
     (dyn_calls [OpSetVersion 3 False, OpDrop] demo_dyn_shell demo_dynamo)
     = (3, False, None) \<and>
   map_option fst (Lock demo_gen (fst (calls demo_gen [OpLock] (demo_shell 1) demo_world))
                     (snd (calls demo_gen [OpLock] (demo_shell 1) demo_world)))
     = Some (Some ErrLocked) \<and>
   fst (dyn_Lock demo_dyn_shell (dyn_calls [OpLock] demo_dyn_shell demo_dynamo)) = None"
proof -
  have a: "snd (calls demo_gen [OpSetVersion 3 False, OpDrop] (demo_shell 1) demo_world)
    = demo_world\<lparr>tables := [],
        sent := [(Background, Begin), (Background, Stmt (Truncate ''schema_migrations'')),
                 (Background, Stmt (InsertVersion ''schema_migrations'' 3 False)),
                 (Background, Commit), (Background, Stmt SelectBaseTables),
                 (Background, Stmt (DropTableIfExistsCascade ''users'')),
                 (Background, Stmt (DropTableIfExistsCascade ''schema_migrations'')),
                 (Background, RowsClose)]\<rparr>"
    by (simp add: pg_defs demo_defs)
  have b: "dyn_calls [OpSetVersion 3 False, OpDrop] demo_dyn_shell demo_dynamo
    = demo_dynamo\<lparr>ddb_tables := [(''migrations'',
         [(''LatestMigrationVersion'', version_item 3 False)])]\<rparr>"
    by (simp add: dyn_defs demo_defs version_item_def)
  have c: "dyn_observed demo_dyn_shell
      (demo_dynamo\<lparr>ddb_tables := [(''migrations'',
         [(''LatestMigrationVersion'', version_item 3 False)])]\<rparr>) = (3, False, None)"
    unfolding dyn_observed_def
    by (rule arg_cong [where f = fst, OF dyn_Version_item [where items =
          "[(''LatestMigrationVersion'', version_item 3 False)]"], simplified])
       (simp_all add: demo_defs)
  have d: "calls demo_gen [OpLock] (demo_shell 1) demo_world
    = ((demo_shell 1)\<lparr>isLocked := True\<rparr>,
       demo_world\<lparr>advisory := [''public/app'' \<mapsto> (1, 1)],
                  sent := [(Background, Stmt (PgAdvisoryLock ''public/app''))]\<rparr>)"
    by (simp add: pg_defs demo_defs)
  show ?thesis
    unfolding a b c d
    by (simp add: observed_eq demo_defs Lock_def dyn_Lock_def NilVersion_def)
qed




text \<open>
  Claim C6, as amended. In the relational driver \<open>Lock()\<close> on a handle whose \<open>isLocked\<close> is
  set returns \<open>ErrLocked\<close> at once: the call returns, and the backend is the one before the
  call, so that no statement was sent. The witness is a backend where another session holds
  the key, on which a handle that is not locked waits.
\<close>

theorem Lock_when_locked:
  assumes "isLocked p"
  shows "Lock gen p w = Some (Some ErrLocked, p, w)"
  using assms by (simp add: Lock_def)

theorem Lock_when_locked_witness:
  "isLocked ((demo_shell 1)\<lparr>isLocked := True\<rparr>) \<and>
   Lock demo_gen ((demo_shell 1)\<lparr>isLocked := True\<rparr>)
     (demo_world\<lparr>advisory := [''public/app'' \<mapsto> (2, 1)]\<rparr>)
     = Some (Some ErrLocked, (demo_shell 1)\<lparr>isLocked := True\<rparr>,
             demo_world\<lparr>advisory := [''public/app'' \<mapsto> (2, 1)]\<rparr>) \<and>
   Lock demo_gen (demo_shell 1) (demo_world\<lparr>advisory := [''public/app'' \<mapsto> (2, 1)]\<rparr>) = None"
  using Lock_when_locked [of "(demo_shell 1)\<lparr>isLocked := True\<rparr>" demo_gen
      "demo_world\<lparr>advisory := [''public/app'' \<mapsto> (2, 1)]\<rparr>"]
  by (simp add: pg_defs demo_defs)

text \<open>
  The claim as stated fails in the key-value driver: a second \<open>Lock()\<close> on a handle whose
  first \<open>Lock()\<close> succeeded returns no error.
\<close>

theorem dyn_Lock_twice_counterexample:
  "fst (dyn_Lock demo_dyn_shell demo_dynamo) = None \<and>
   fst (dyn_Lock demo_dyn_shell (snd (dyn_Lock demo_dyn_shell demo_dynamo))) = None \<and>
   fst (dyn_Lock demo_dyn_shell (snd (dyn_Lock demo_dyn_shell demo_dynamo))) \<noteq> Some ErrLocked"
  by (simp add: dyn_Lock_def)



text \<open>
  Claim C8, as amended. In the relational driver a statement timeout given in the connection
  string is parsed as an integer of milliseconds and stored in the configuration of the
  handle, and a value that does not parse makes \<open>Open\<close> fail with the parse error (or with the
  error of \<open>sql.Open\<close>, which comes first). No call to the backend is bounded by it: every
  call of \<open>Open\<close> and of the operations of a handle, whatever its \<open>StatementTimeout\<close>, is
  made with \<open>context.Background()\<close>, and no operation changes the stored value.
\<close>

theorem StatementTimeout_stored_not_applied:
  assumes "nurl_Parse url = Inr purl"
    and "Get (Query purl) ''x-statement-timeout'' = str" and "str \<noteq> []"
    and "Atoi str = (n, perr)"
    and "all_background w"
    and "calls gen cs p w0 = (p', w0')" and "all_background w0"
  shows "(case perr of
            Some err \<Rightarrow>
              (\<exists>w1. Open nurl_Parse gen url w
                      = Some (Inl (case faults w of Some e0 # _ \<Rightarrow> e0 | _ \<Rightarrow> err), w1))
          | None \<Rightarrow>
              (case Open nurl_Parse gen url w of
                 None \<Rightarrow> True
               | Some (Inl _, w') \<Rightarrow> all_background w'
               | Some (Inr px, w') \<Rightarrow>
                   StatementTimeout (config px) = n * Millisecond \<and> all_background w')) \<and>
         all_background w0' \<and> StatementTimeout (config p') = StatementTimeout (config p)"
proof -
  let ?dsn = "Get (Query purl) ''x-postgres-dsn''"
  let ?cfg = "\<lparr>MigrationsTable = Get (Query purl) ''x-migrations-table'',
               DatabaseName = Path purl, SchemaName = [],
               StatementTimeout = n * Millisecond\<rparr>"
  obtain f w1 where so: "sql_Open ?dsn w = (f, w1)" by (cases "sql_Open ?dsn w")
  from sql_Open_bg [OF so assms(5)] have b1: "all_background w1" .
  have a: "case perr of
            Some err \<Rightarrow>
              (\<exists>w1. Open nurl_Parse gen url w
                      = Some (Inl (case faults w of Some e0 # _ \<Rightarrow> e0 | _ \<Rightarrow> err), w1))
          | None \<Rightarrow>
              (case Open nurl_Parse gen url w of
                 None \<Rightarrow> True
               | Some (Inl _, w') \<Rightarrow> all_background w'
               | Some (Inr px, w') \<Rightarrow>
                   StatementTimeout (config px) = n * Millisecond \<and> all_background w')"
  proof (cases perr)
    case (Some err)
    with assms(1-4) show ?thesis
      by (auto simp: Open_def Let_def sql_Open_def call_def split: list.splits option.splits)
  next
    case None
    show ?thesis
    proof (cases f)
      case (Some e0)
      with None so b1 assms(1-4) show ?thesis by (simp add: Open_def Let_def)
    next
      case f: None
      with None so assms(1-4)
      have o: "Open nurl_Parse gen url w = WithInstance gen (Some ?cfg) w1"
        by (simp add: Open_def Let_def)
      show ?thesis
      proof (cases "WithInstance gen (Some ?cfg) w1")
        case wn: None
        with None o show ?thesis by simp
      next
        case (Some x)
        obtain res w' where x: "x = (res, w')" by (cases x)
        from WithInstance_bg [OF Some [unfolded x] b1] have b': "all_background w'" .
        show ?thesis
        proof (cases res)
          case (Inl e)
          with None o Some x b' show ?thesis by simp
        next
          case (Inr px)
          with Some x have wi: "WithInstance gen (Some ?cfg) w1 = Some (Inr px, w')" by simp
          from wi obtain c0 cn c3 w4 where
            c0: "Some ?cfg = Some c0" and
            e: "ensureVersionTable gen \<lparr>conn = cn, isLocked = False, config = c3\<rparr> w4
                  = Some (None, px, w')" and
            st: "StatementTimeout c3 = StatementTimeout c0"
            by (rule WithInstance_success)
          from ensureVersionTable_success [OF e] have "config px = c3" by simp
          with st c0 have "StatementTimeout (config px) = n * Millisecond" by auto
          with None o Some x Inr b' show ?thesis by simp
        qed
      qed
    qed
  qed
  from calls_bg [OF assms(6,7)] calls_config [OF assms(6)] a show ?thesis by simp
qed

theorem StatementTimeout_stored_not_applied_witness:
  "demo_parse ''shell:///app?x-statement-timeout=5'' =
     Inr \<lparr>Path = ''/app'',
          Query = [(''x-statement-timeout'', [''5'']),
                   (''x-migrations-table'', [''schema_migrations'']),
                   (''x-dynamodb-table'', [''migrations''])]\<rparr> \<and>
   Atoi ''5'' = (5, None) \<and>
   all_background (demo_world\<lparr>tables := [(''users'', [])]\<rparr>) \<and>
   all_background demo_world \<and>
   (\<exists>w'. Open demo_parse demo_gen ''shell:///app?x-statement-timeout=5''
            (demo_world\<lparr>tables := [(''users'', [])]\<rparr>) = Some (Inr demo_opened, w') \<and>
         all_background w') \<and>
   StatementTimeout (config demo_opened) = 5 * Millisecond \<and>
   all_background (snd (calls demo_gen [OpSetVersion 1 False, OpVersion, OpDrop]
                          demo_opened demo_world))"
proof -
  have p: "demo_parse ''shell:///app?x-statement-timeout=5'' =
     Inr \<lparr>Path = ''/app'',
          Query = [(''x-statement-timeout'', [''5'']),
                   (''x-migrations-table'', [''schema_migrations'']),
                   (''x-dynamodb-table'', [''migrations''])]\<rparr>"
    by (simp add: demo_parse_def)
  have g: "Get (Query \<lparr>Path = ''/app'',
          Query = [(''x-statement-timeout'', [''5'']),
                   (''x-migrations-table'', [''schema_migrations'']),
                   (''x-dynamodb-table'', [''migrations''])]\<rparr>) ''x-statement-timeout'' = ''5''"
    by (simp add: Get_def)
  have n: "''5'' \<noteq> []" by simp
  have b: "all_background (demo_world\<lparr>tables := [(''users'', [])]\<rparr>)"
    "all_background demo_world"
    by (simp_all add: all_background_def demo_defs)
  from StatementTimeout_stored_not_applied [where nurl_Parse = demo_parse
      and url = "''shell:///app?x-statement-timeout=5''" and gen = demo_gen,
      OF p g n Atoi_5 b(1) demo_calls b(2)]
  have "all_background (snd (calls demo_gen [OpSetVersion 1 False, OpVersion, OpDrop]
                          demo_opened demo_world))"
    and "case Open demo_parse demo_gen ''shell:///app?x-statement-timeout=5''
                (demo_world\<lparr>tables := [(''users'', [])]\<rparr>) of
           None \<Rightarrow> True
         | Some (Inl _, w') \<Rightarrow> all_background w'
         | Some (Inr px, w') \<Rightarrow>
             StatementTimeout (config px) = 5 * Millisecond \<and> all_background w'"
    unfolding demo_calls by simp_all
  then show ?thesis
    using p b unfolding demo_Open by (simp add: Atoi_5)
qed

text \<open>
  The claim as stated fails: with a statement timeout of 5 ms configured, \<open>Open\<close>,
  \<open>SetVersion\<close>, \<open>Version\<close> and \<open>Drop\<close> send every statement with the background context,
  none with a deadline of 5 ms.
\<close>

theorem statement_timeout_unused_counterexample:
  "Open demo_parse demo_gen ''shell:///app?x-statement-timeout=5''
     (demo_world\<lparr>tables := [(''users'', [])]\<rparr>)
     = Some (Inr demo_opened,
             demo_world
               \<lparr>tables := [(''users'', []), (''schema_migrations'', [])],
                next_conn := 4,
                sent := [(Background, SqlOpen []), (Background, Ping),
                         (Background, Stmt SelectCurrentSchema), (Background, DbConn),
                         (Background, Stmt (PgAdvisoryLock ''public//app'')),
                         (Background, Stmt (CreateTableIfNotExists ''schema_migrations'')),
                         (Background, Stmt (PgAdvisoryUnlock ''public//app''))]\<rparr>) \<and>
   StatementTimeout (config demo_opened) = 5000000 \<and>
   sent (snd (calls demo_gen [OpSetVersion 1 False, OpVersion, OpDrop] demo_opened demo_world))
     = [(Background, Begin),
        (Background, Stmt (Truncate ''schema_migrations'')),
        (Background, Stmt (InsertVersion ''schema_migrations'' 1 False)),
        (Background, Commit),
        (Background, Stmt (SelectVersionLimit1 ''schema_migrations'')),
        (Background, Stmt SelectBaseTables),
        (Background, Stmt (DropTableIfExistsCascade ''users'')),
        (Background, Stmt (DropTableIfExistsCascade ''schema_migrations'')),
        (Background, RowsClose)] \<and>
   Background \<noteq> WithTimeout 5000000"
  unfolding demo_Open demo_calls
  by (simp add: demo_opened_def Millisecond_def)

text \<open>
  Claim C9, as amended. In the relational driver a successful \<open>Open\<close> or \<open>WithInstance\<close>
  leaves the version table in place: its name is not empty, the table exists, the last three
  statements sent are \<open>pg_advisory_lock\<close>, \<open>CREATE TABLE IF NOT EXISTS\<close> and
  \<open>pg_advisory_unlock\<close> in this order, the handle is returned unlocked, and a \<open>Version()\<close>
  into which no failure is injected returns without error. \<open>WithInstance\<close> fails when the
  ping fails, and \<open>ensureVersionTable\<close> returns an error when the creation fails.
\<close>

theorem Open_ensures_version_table:
  assumes "Open nurl_Parse gen url w = Some (Inr px, w') \<or>
           WithInstance gen cfg w = Some (Inr px, w')"
    and "faults wp = Some e # fs"
    and "Lock gen p wc = Some (None, p1, w1)" and "faults w1 = Some e2 # fs2"
  shows "MigrationsTable (config px) \<noteq> [] \<and>
         map_of (tables w') (MigrationsTable (config px)) \<noteq> None \<and> \<not> isLocked px \<and>
         (\<exists>aid pre. gen (DatabaseName (config px)) (SchemaName (config px)) = Inr aid \<and>
            sent w' = pre @
              [(Background, Stmt (PgAdvisoryLock aid)),
               (Background, Stmt (CreateTableIfNotExists (MigrationsTable (config px)))),
               (Background, Stmt (PgAdvisoryUnlock aid))]) \<and>
         (\<exists>v d. observed px w' = Some (v, d, None)) \<and>
         (\<exists>wp'. WithInstance gen (Some c) wp = Some (Inl e, wp')) \<and>
         (\<exists>err p2 w2. ensureVersionTable gen p wc = Some (Some err, p2, w2))"
proof -
  from assms(1) obtain cfg' w0 where "WithInstance gen cfg' w0 = Some (Inr px, w')"
  proof
    assume "Open nurl_Parse gen url w = Some (Inr px, w')"
    then show ?thesis by (rule Open_success) (rule that)
  next
    assume "WithInstance gen cfg w = Some (Inr px, w')"
    then show ?thesis by (rule that)
  qed
  from WithInstance_table [OF this] WithInstance_ping_fails [OF assms(2), of gen c]
    ensureVersionTable_create_fails [OF assms(3,4)]
  show ?thesis by simp
qed

theorem Open_ensures_version_table_witness:
  "Open demo_parse demo_gen ''shell:///app?x-statement-timeout=5''
     (demo_world\<lparr>tables := [(''users'', [])]\<rparr>)
     = Some (Inr demo_opened,
             demo_world
               \<lparr>tables := [(''users'', []), (''schema_migrations'', [])],
                next_conn := 4,
                sent := [(Background, SqlOpen []), (Background, Ping),
                         (Background, Stmt SelectCurrentSchema), (Background, DbConn),
                         (Background, Stmt (PgAdvisoryLock ''public//app'')),
                         (Background, Stmt (CreateTableIfNotExists ''schema_migrations'')),
                         (Background, Stmt (PgAdvisoryUnlock ''public//app''))]\<rparr>) \<and>
   faults (demo_world\<lparr>faults := [Some (DriverError ''connection refused'')]\<rparr>)
     = [Some (DriverError ''connection refused'')] \<and>
   Lock demo_gen (demo_shell 1)
     (demo_world\<lparr>faults := [None, Some (PqError ''insufficient_privilege'')]\<rparr>)
     = Some (None, (demo_shell 1)\<lparr>isLocked := True\<rparr>,
             demo_world\<lparr>advisory := [''public/app'' \<mapsto> (1, 1)],
                        faults := [Some (PqError ''insufficient_privilege'')],
                        sent := [(Background, Stmt (PgAdvisoryLock ''public/app''))]\<rparr>) \<and>
   map_of (tables (demo_world\<lparr>tables := [(''users'', [])]\<rparr>)) ''schema_migrations'' = None \<and>
   MigrationsTable (config demo_opened) = ''schema_migrations'' \<and>
   (\<exists>v d. observed demo_opened
       (demo_world
          \<lparr>tables := [(''users'', []), (''schema_migrations'', [])],
           next_conn := 4,
           sent := [(Background, SqlOpen []), (Background, Ping),
                    (Background, Stmt SelectCurrentSchema), (Background, DbConn),
                    (Background, Stmt (PgAdvisoryLock ''public//app'')),
                    (Background, Stmt (CreateTableIfNotExists ''schema_migrations'')),
                    (Background, Stmt (PgAdvisoryUnlock ''public//app''))]\<rparr>)
       = Some (v, d, None)) \<and>
   (\<exists>wp'. WithInstance demo_gen (Some demo_config)
            (demo_world\<lparr>faults := [Some (DriverError ''connection refused'')]\<rparr>)
            = Some (Inl (DriverError ''connection refused''), wp')) \<and>
   (\<exists>err p2 w2. ensureVersionTable demo_gen (demo_shell 1)
       (demo_world\<lparr>faults := [None, Some (PqError ''insufficient_privilege'')]\<rparr>)
       = Some (Some err, p2, w2))"
proof -
  have l: "Lock demo_gen (demo_shell 1)
     (demo_world\<lparr>faults := [None, Some (PqError ''insufficient_privilege'')]\<rparr>)
     = Some (None, (demo_shell 1)\<lparr>isLocked := True\<rparr>,
             demo_world\<lparr>advisory := [''public/app'' \<mapsto> (1, 1)],
                        faults := [Some (PqError ''insufficient_privilege'')],
                        sent := [(Background, Stmt (PgAdvisoryLock ''public/app''))]\<rparr>)"
    by (simp add: pg_defs demo_defs)
  have f1: "faults (demo_world\<lparr>faults := [Some (DriverError ''connection refused'')]\<rparr>)
     = [Some (DriverError ''connection refused'')]" by simp
  have f2: "faults (demo_world\<lparr>advisory := [''public/app'' \<mapsto> (1, 1)],
                        faults := [Some (PqError ''insufficient_privilege'')],
                        sent := [(Background, Stmt (PgAdvisoryLock ''public/app''))]\<rparr>)
     = [Some (PqError ''insufficient_privilege'')]" by simp
  have m: "map_of (tables (demo_world\<lparr>tables := [(''users'', [])]\<rparr>)) ''schema_migrations''
             = None" by simp
  have mt: "MigrationsTable (config demo_opened) = ''schema_migrations''"
    by (simp add: demo_opened_def)
  note t = Open_ensures_version_table [OF disjI1 [OF demo_Open] f1 l f2, of demo_config]
  from t have o: "\<exists>v d. observed demo_opened
       (demo_world
          \<lparr>tables := [(''users'', []), (''schema_migrations'', [])],
           next_conn := 4,
           sent := [(Background, SqlOpen []), (Background, Ping),
                    (Background, Stmt SelectCurrentSchema), (Background, DbConn),
                    (Background, Stmt (PgAdvisoryLock ''public//app'')),
                    (Background, Stmt (CreateTableIfNotExists ''schema_migrations'')),
                    (Background, Stmt (PgAdvisoryUnlock ''public//app''))]\<rparr>)
       = Some (v, d, None)" by blast
  from t have wi: "\<exists>wp'. WithInstance demo_gen (Some demo_config)
            (demo_world\<lparr>faults := [Some (DriverError ''connection refused'')]\<rparr>)
            = Some (Inl (DriverError ''connection refused''), wp')" by blast
  from t have ev: "\<exists>err p2 w2. ensureVersionTable demo_gen (demo_shell 1)
       (demo_world\<lparr>faults := [None, Some (PqError ''insufficient_privilege'')]\<rparr>)
       = Some (Some err, p2, w2)" by blast
  show ?thesis
    by (intro conjI demo_Open f1 l m mt o wi ev)
qed

text \<open>
  The claim as stated fails in the key-value driver: its \<open>Open\<close> succeeds on a service
  without the table and creates nothing, and the \<open>Version()\<close> that follows fails because
  the table is not there.
\<close>

theorem dyn_Open_creates_no_store_counterexample:
  "dyn_Open demo_parse (\<lambda>s. Inr 0) ''shell://?x-dynamodb-table=migrations'' empty_dynamo
     = (Inr demo_dyn_shell, empty_dynamo) \<and>
   dyn_Version demo_dyn_shell empty_dynamo
     = ((0, False, Some (AwsError ''ResourceNotFoundException'')), empty_dynamo)"
proof -
  have "dyn_Version demo_dyn_shell empty_dynamo
     = ((0, False, Some (AwsError ''ResourceNotFoundException'')), empty_dynamo)"
    by (rule dyn_Version_no_table) (simp_all add: empty_dynamo_def)
  with demo_dyn_Open show ?thesis by (intro conjI)
qed

end
